theory Spec2Isabelle
  imports Main "HOL-Library.List_Lexorder" "HOL-Library.Char_ord" "HOL-Library.Word"
begin

section \<open>Python values shared by the scripts\<close>

text \<open>
  The three core scripts (\<^verbatim>\<open>build_date_catalog.py\<close>, \<^verbatim>\<open>prepare_sync.py\<close>,
  \<^verbatim>\<open>scrape_bing.py\<close>) raise only \<^verbatim>\<open>ValueError\<close> on the paths modelled here:
  from \<^verbatim>\<open>int()\<close>, from the \<^verbatim>\<open>datetime\<close>/\<^verbatim>\<open>date\<close> constructors and from
  \<^verbatim>\<open>datetime.replace\<close>.
\<close>

datatype error = ValueError

text \<open>
  \<^verbatim>\<open>int(s)\<close> on a string of ASCII decimal digits. Python's \<^verbatim>\<open>int\<close> also accepts
  surrounding whitespace, a sign and single underscores between digits; those inputs are
  outside the month keys considered here and are reported as \<^verbatim>\<open>ValueError\<close> by this
  definition, so every theorem below speaks about digit strings only.
\<close>

definition is_digit :: "char \<Rightarrow> bool" where
  "is_digit c = (c \<in> set ''0123456789'')"

definition digit_val :: "char \<Rightarrow> int" where
  "digit_val c = int (of_char c) - 48"

definition digit_char :: "int \<Rightarrow> char" where
  "digit_char d = ''0123456789'' ! nat d"

definition py_int :: "string \<Rightarrow> error + int" where
  "py_int s =
     (if s \<noteq> [] \<and> list_all is_digit s
      then Inr (foldl (\<lambda>a c. 10 * a + digit_val c) 0 s)
      else Inl ValueError)"

text \<open>
  \<^verbatim>\<open>"%0wd" % n\<close> for \<open>0 \<le> n < 10 ^ w\<close>, the only arguments it gets below: years are
  within 1..9999, months within 1..12 and days within 1..31. It is what
  \<^verbatim>\<open>date.isoformat()\<close> prints for the year, the month and the day, and what
  \<^verbatim>\<open>strftime\<close> prints for \<^verbatim>\<open>%m\<close>.
\<close>

fun zero_pad :: "nat \<Rightarrow> int \<Rightarrow> string" where
  "zero_pad 0 n = []"
| "zero_pad (Suc w) n = zero_pad w (n div 10) @ [digit_char (n mod 10)]"

subsection \<open>\<^verbatim>\<open>datetime(year, month, 1)\<close>\<close>

text \<open>
  Every \<^verbatim>\<open>datetime\<close> the scripts build has day 1 and time 0, so a value is its year and
  month. The constructor and \<^verbatim>\<open>replace\<close> raise \<^verbatim>\<open>ValueError\<close> outside
  \<^verbatim>\<open>MINYEAR..MAXYEAR\<close> = 1..9999 and outside months 1..12.
\<close>

record datetime =
  year :: int
  month :: int

definition datetime_new :: "int \<Rightarrow> int \<Rightarrow> error + datetime" where
  "datetime_new y m =
     (if 1 \<le> y \<and> y \<le> 9999 \<and> 1 \<le> m \<and> m \<le> 12
      then Inr \<lparr>year = y, month = m\<rparr> else Inl ValueError)"

definition dt_le :: "datetime \<Rightarrow> datetime \<Rightarrow> bool" where
  "dt_le a b = (year a < year b \<or> (year a = year b \<and> month a \<le> month b))"

text \<open>
  \<^verbatim>\<open>strftime("%Y%m")\<close>. The C library prints \<^verbatim>\<open>%Y\<close> as the year in decimal without
  padding, so a year below 1000 gives fewer than four digits (year 202 prints as
  \<^verbatim>\<open>202\<close>); \<^verbatim>\<open>%m\<close> is always two digits.
\<close>

definition year_decimal :: "int \<Rightarrow> string" where
  "year_decimal y =
     (if y < 10 then zero_pad 1 y
      else if y < 100 then zero_pad 2 y
      else if y < 1000 then zero_pad 3 y
      else zero_pad 4 y)"

definition strftime_Ym :: "datetime \<Rightarrow> string" where
  "strftime_Ym d = year_decimal (year d) @ zero_pad 2 (month d)"

subsection \<open>\<^verbatim>\<open>generate_months\<close> (identical in the three scripts)\<close>

definition parse :: "string \<Rightarrow> error + datetime" where
  "parse s =
     (case py_int (take 4 s) of
        Inl e \<Rightarrow> Inl e
      | Inr y \<Rightarrow>
          (case py_int (take 2 (drop 4 s)) of
             Inl e \<Rightarrow> Inl e
           | Inr m \<Rightarrow> datetime_new y m))"

definition next_month :: "datetime \<Rightarrow> error + datetime" where
  "next_month cur =
     (if month cur = 12 then datetime_new (year cur + 1) 1
      else datetime_new (year cur) (month cur + 1))"

function gm_loop :: "datetime \<Rightarrow> datetime \<Rightarrow> string list \<Rightarrow> error + string list" where
  "gm_loop cur stop months =
     (if dt_le cur stop then
        (case next_month cur of
           Inl e \<Rightarrow> Inl e
         | Inr cur' \<Rightarrow> gm_loop cur' stop (months @ [strftime_Ym cur]))
      else Inr months)"
  by pat_completeness auto
termination
  by (relation "measure (\<lambda>(cur, stop, months). nat (120001 - (12 * year cur + month cur)))")
     (auto simp: next_month_def datetime_new_def split: if_splits)

definition generate_months :: "string \<Rightarrow> string \<Rightarrow> error + string list" where
  "generate_months start end =
     (case parse start of
        Inl e \<Rightarrow> Inl e
      | Inr cur \<Rightarrow>
          (case parse end of
             Inl e \<Rightarrow> Inl e
           | Inr stop \<Rightarrow> gm_loop cur stop []))"

section \<open>\<^verbatim>\<open>build_date_catalog.py\<close>\<close>

subsection \<open>The remote host\<close>

text \<open>
  \<^verbatim>\<open>get_with_retry\<close> returns a response or \<^verbatim>\<open>None\<close> (a 404, or three failed attempts).
  A page is represented by what \<^verbatim>\<open>BeautifulSoup.find_all("a", href=...)\<close> reads from it:
  the \<^verbatim>\<open>href\<close> values of its anchors in page order. A streamed body is its bytes.
\<close>

type_synonym bytes = "8 word list"

record network =
  pages :: "string \<Rightarrow> string list option"
  bodies :: "string \<Rightarrow> bytes option"

definition BASE_URL :: string where
  "BASE_URL = ''https://bingwallpaper.anerg.com''"

definition rsplit_last :: "string \<Rightarrow> string" where
  "rsplit_last s = rev (takeWhile (\<lambda>c. c \<noteq> CHR ''/'') (rev s))"

fun collect_ids :: "string list \<Rightarrow> string set \<Rightarrow> string list \<Rightarrow> string list" where
  "collect_ids [] seen ids = ids"
| "collect_ids (href # rest) seen ids =
     (let img_id = rsplit_last href in
      if img_id \<noteq> [] \<and> img_id \<notin> seen
      then collect_ids rest (insert img_id seen) (ids @ [img_id])
      else collect_ids rest seen ids)"

definition get_image_ids :: "network \<Rightarrow> string \<Rightarrow> string list" where
  "get_image_ids net yyyymm =
     (case pages net (BASE_URL @ ''/archive/us/'' @ yyyymm) of
        None \<Rightarrow> []
      | Some hrefs \<Rightarrow>
          collect_ids (filter (\<lambda>h. take 11 h = ''/detail/us/'') hrefs) {} [])"

subsection \<open>\<^verbatim>\<open>assign_dates\<close>\<close>

record catalog_row =
  date :: string
  yyyymm :: string
  image_id :: string
  filename :: string

definition is_leap :: "int \<Rightarrow> bool" where
  "is_leap y = (y mod 4 = 0 \<and> (y mod 100 \<noteq> 0 \<or> y mod 400 = 0))"

definition days_in_month :: "int \<Rightarrow> int \<Rightarrow> int" where
  "days_in_month y m =
     (if m = 2 then (if is_leap y then 29 else 28)
      else if m = 4 \<or> m = 6 \<or> m = 9 \<or> m = 11 then 30 else 31)"

text \<open>\<^verbatim>\<open>date(year, month, day).isoformat()\<close>; the constructor validates all three.\<close>

definition date_isoformat :: "int \<Rightarrow> int \<Rightarrow> int \<Rightarrow> error + string" where
  "date_isoformat y m d =
     (if 1 \<le> y \<and> y \<le> 9999 \<and> 1 \<le> m \<and> m \<le> 12 \<and> 1 \<le> d \<and> d \<le> days_in_month y m
      then Inr (zero_pad 4 y @ ''-'' @ zero_pad 2 m @ ''-'' @ zero_pad 2 d)
      else Inl ValueError)"

fun assign_loop ::
  "string \<Rightarrow> int \<Rightarrow> int \<Rightarrow> int \<Rightarrow> int \<Rightarrow> string list \<Rightarrow> catalog_row list \<Rightarrow> error + catalog_row list"
where
  "assign_loop ym y m n position [] rows = Inr rows"
| "assign_loop ym y m n position (img # rest) rows =
     (let day = n - position + 1 in
      case date_isoformat y m day of
        Inl e \<Rightarrow> Inl e
      | Inr d \<Rightarrow>
          assign_loop ym y m n (position + 1) rest
            (rows @ [\<lparr>date = d, yyyymm = ym, image_id = img,
                      filename = ym @ ''_'' @ img @ ''.jpg''\<rparr>]))"

definition assign_dates :: "string \<Rightarrow> string list \<Rightarrow> error + catalog_row list" where
  "assign_dates ym image_ids =
     (case py_int (take 4 ym) of
        Inl e \<Rightarrow> Inl e
      | Inr y \<Rightarrow>
          (case py_int (take 2 (drop 4 ym)) of
             Inl e \<Rightarrow> Inl e
           | Inr m \<Rightarrow> assign_loop ym y m (int (length image_ids)) 1 image_ids []))"

subsection \<open>The catalog: a Python \<^verbatim>\<open>dict\<close> keyed by \<^verbatim>\<open>(yyyymm, image_id)\<close>\<close>

text \<open>
  A \<^verbatim>\<open>dict\<close> keeps insertion order: assigning to a key that is present replaces the value
  where it stands, a new key goes to the end, \<^verbatim>\<open>del\<close> removes the entry.
\<close>

type_synonym catalog = "((string \<times> string) \<times> catalog_row) list"

fun dict_set :: "'k \<Rightarrow> 'v \<Rightarrow> ('k \<times> 'v) list \<Rightarrow> ('k \<times> 'v) list" where
  "dict_set k v [] = [(k, v)]"
| "dict_set k v (p # ps) = (if fst p = k then (k, v) # ps else p # dict_set k v ps)"

definition dict_del :: "'k \<Rightarrow> ('k \<times> 'v) list \<Rightarrow> ('k \<times> 'v) list" where
  "dict_del k d = filter (\<lambda>p. fst p \<noteq> k) d"

fun load_rows :: "catalog_row list \<Rightarrow> catalog \<Rightarrow> catalog" where
  "load_rows [] existing = existing"
| "load_rows (row # rest) existing =
     load_rows rest (dict_set (yyyymm row, image_id row) row existing)"

definition load_existing :: "catalog_row list option \<Rightarrow> catalog" where
  "load_existing csv = (case csv of None \<Rightarrow> [] | Some rows \<Rightarrow> load_rows rows [])"

fun purge_loop :: "string \<Rightarrow> (string \<times> string) list \<Rightarrow> catalog \<Rightarrow> catalog" where
  "purge_loop ym [] all_rows = all_rows"
| "purge_loop ym (k # ks) all_rows =
     purge_loop ym ks (if fst k = ym then dict_del k all_rows else all_rows)"

fun insert_loop :: "catalog_row list \<Rightarrow> catalog \<Rightarrow> catalog" where
  "insert_loop [] all_rows = all_rows"
| "insert_loop (row # rest) all_rows =
     insert_loop rest (dict_set (yyyymm row, image_id row) row all_rows)"

text \<open>Lines 205 to 212 of \<^verbatim>\<open>main\<close>: derive the new rows, purge the month, insert.\<close>

definition merge_month :: "catalog \<Rightarrow> string \<Rightarrow> string list \<Rightarrow> error + catalog" where
  "merge_month all_rows ym image_ids =
     (case assign_dates ym image_ids of
        Inl e \<Rightarrow> Inl e
      | Inr new_rows \<Rightarrow>
          Inr (insert_loop new_rows (purge_loop ym (map fst all_rows) all_rows)))"

subsection \<open>\<^verbatim>\<open>write_csv\<close>\<close>

text \<open>
  A CSV file is its list of records, each a list of fields, the header first.
  \<^verbatim>\<open>csv_path.open("w")\<close> truncates the file at \<^verbatim>\<open>csv_path\<close> itself when it opens it; the
  header and the rows are then written to that same file. Output buffering can join the
  two writes but cannot put either before the truncation.
\<close>

type_synonym csv_file = "string list list"

datatype fs_op = OpenTruncate string | Write string csv_file

type_synonym filesystem = "string \<rightharpoonup> csv_file"

fun apply_fs_op :: "filesystem \<Rightarrow> fs_op \<Rightarrow> filesystem" where
  "apply_fs_op fs (OpenTruncate p) = fs(p \<mapsto> [])"
| "apply_fs_op fs (Write p recs) = fs(p \<mapsto> (case fs p of None \<Rightarrow> recs | Some old \<Rightarrow> old @ recs))"

definition run_fs_ops :: "filesystem \<Rightarrow> fs_op list \<Rightarrow> filesystem" where
  "run_fs_ops fs ops = foldl apply_fs_op fs ops"

definition fieldnames :: "string list" where
  "fieldnames = [''date'', ''yyyymm'', ''image_id'', ''filename'']"

definition row_fields :: "catalog_row \<Rightarrow> string list" where
  "row_fields r = [date r, yyyymm r, image_id r, filename r]"

definition write_csv_ops :: "string \<Rightarrow> catalog_row list \<Rightarrow> fs_op list" where
  "write_csv_ops csv_path rows =
     (let rows_sorted = sort_key date rows in
      [OpenTruncate csv_path, Write csv_path [fieldnames], Write csv_path (map row_fields rows_sorted)])"

definition write_csv :: "filesystem \<Rightarrow> string \<Rightarrow> catalog_row list \<Rightarrow> filesystem" where
  "write_csv fs csv_path rows = run_fs_ops fs (write_csv_ops csv_path rows)"

subsection \<open>The loop of \<^verbatim>\<open>main\<close>\<close>

definition catalog_step ::
  "bool \<Rightarrow> string \<Rightarrow> network \<Rightarrow> catalog \<Rightarrow> string \<Rightarrow> error + catalog"
where
  "catalog_step force now_ym net all_rows ym =
     (let month_keys = filter (\<lambda>k. fst k = ym) (map fst all_rows) in
      if month_keys \<noteq> [] \<and> \<not> force \<and> ym < now_ym then Inr all_rows
      else
        (let image_ids = get_image_ids net ym in
         if image_ids = [] then Inr all_rows
         else merge_month all_rows ym image_ids))"

fun catalog_loop ::
  "bool \<Rightarrow> string \<Rightarrow> network \<Rightarrow> string list \<Rightarrow> catalog \<Rightarrow> error + catalog"
where
  "catalog_loop force now_ym net [] all_rows = Inr all_rows"
| "catalog_loop force now_ym net (ym # months) all_rows =
     (case catalog_step force now_ym net all_rows ym of
        Inl e \<Rightarrow> Inl e
      | Inr all_rows' \<Rightarrow> catalog_loop force now_ym net months all_rows')"

section \<open>\<^verbatim>\<open>prepare_sync.py\<close>\<close>

text \<open>
  The state file is a JSON document with three arrays; a missing array reads as the empty
  one. The wallpaper directory is consulted at two places only, \<^verbatim>\<open>high/filename\<close> and
  \<^verbatim>\<open>filename\<close>, and only for the size of the file there.
\<close>

record state_file =
  done_months :: "string list"
  done_images :: "string list"
  failed_images :: "string list"

record wallpaper_dir =
  high_files :: "string \<rightharpoonup> nat"
  root_files :: "string \<rightharpoonup> nat"

definition MIN_FILE_SIZE :: nat where
  "MIN_FILE_SIZE = 50000"

definition load_catalog :: "catalog_row list option \<Rightarrow> string set \<Rightarrow> catalog_row list" where
  "load_catalog csv months =
     (case csv of None \<Rightarrow> [] | Some rows \<Rightarrow> filter (\<lambda>row. yyyymm row \<in> months) rows)"

definition candidate_ok :: "nat option \<Rightarrow> bool" where
  "candidate_ok f = (case f of None \<Rightarrow> False | Some st_size \<Rightarrow> st_size \<ge> MIN_FILE_SIZE)"

definition image_is_present :: "wallpaper_dir \<Rightarrow> string \<Rightarrow> bool" where
  "image_is_present dir fname =
     (candidate_ok (high_files dir fname) \<or> candidate_ok (root_files dir fname))"

definition image_key :: "string \<Rightarrow> string \<Rightarrow> string" where
  "image_key ym img = ym @ ''/'' @ img"

text \<open>The key \<^verbatim>\<open>f"{yyyymm}/{image_id}"\<close> of a catalog row.\<close>

definition row_key :: "catalog_row \<Rightarrow> string" where
  "row_key row = image_key (yyyymm row) (image_id row)"

text \<open>The two tallies of \<^verbatim>\<open>main\<close>, in catalog order.\<close>

definition present_of :: "wallpaper_dir \<Rightarrow> catalog_row list \<Rightarrow> (string \<times> string) list" where
  "present_of dir catalog_rows =
     map (\<lambda>row. (yyyymm row, image_id row))
       (filter (\<lambda>row. image_is_present dir (filename row)) catalog_rows)"

definition missing_of :: "wallpaper_dir \<Rightarrow> catalog_row list \<Rightarrow> (string \<times> string) list" where
  "missing_of dir catalog_rows =
     map (\<lambda>row. (yyyymm row, image_id row))
       (filter (\<lambda>row. \<not> image_is_present dir (filename row)) catalog_rows)"

fun mark_present :: "(string \<times> string) list \<Rightarrow> string set \<Rightarrow> string set" where
  "mark_present [] done_imgs = done_imgs"
| "mark_present ((ym, img) # rest) done_imgs =
     mark_present rest (insert (image_key ym img) done_imgs)"

fun unmark_missing ::
  "(string \<times> string) list \<Rightarrow> string set \<times> string set \<Rightarrow> string set \<times> string set"
where
  "unmark_missing [] sets = sets"
| "unmark_missing ((ym, img) # rest) (done_imgs, failed_imgs) =
     unmark_missing rest
       (done_imgs - {image_key ym img}, failed_imgs - {image_key ym img})"

definition update_done_months ::
  "string set \<Rightarrow> string set \<Rightarrow> string set \<Rightarrow> string \<Rightarrow> string set"
where
  "update_done_months done_ms months_with_catalog months_with_missing this_month =
     (let d1 = done_ms - months_with_missing;
          d2 = d1 \<union> {ym \<in> months_with_catalog - months_with_missing. ym \<noteq> this_month}
      in d2 - {this_month})"

definition empty_state :: state_file where
  "empty_state = \<lparr>done_months = [], done_images = [], failed_images = []\<rparr>"

text \<open>The state file when it exists, the empty state otherwise (both scripts).\<close>

definition load_state :: "state_file option \<Rightarrow> state_file" where
  "load_state stored = (case stored of None \<Rightarrow> empty_state | Some st \<Rightarrow> st)"

text \<open>
  The body of \<^verbatim>\<open>main\<close> from line 94 on: it gets the window, the current month, the
  catalog file, the directory and the state file, and returns the state it writes and
  its return value.
\<close>

definition reconcile ::
  "string \<Rightarrow> string \<Rightarrow> string \<Rightarrow> catalog_row list option \<Rightarrow> wallpaper_dir \<Rightarrow>
   state_file option \<Rightarrow> error + (state_file \<times> int)"
where
  "reconcile start end this_month csv dir stored =
     (case generate_months start end of
        Inl e \<Rightarrow> Inl e
      | Inr months \<Rightarrow>
          (let months_in_scope = set months;
               catalog_rows = load_catalog csv months_in_scope;
               months_with_catalog = set (map yyyymm catalog_rows);
               present = present_of dir catalog_rows;
               missing = missing_of dir catalog_rows;
               months_with_missing = set (map fst missing);
               state = load_state stored;
               done_imgs = mark_present present (set (done_images state));
               (done_imgs', failed_imgs') =
                  unmark_missing missing (done_imgs, set (failed_images state));
               done_ms = update_done_months (set (done_months state))
                           months_with_catalog months_with_missing this_month;
               written = \<lparr>done_months = sorted_list_of_set done_ms,
                          done_images = sorted_list_of_set done_imgs',
                          failed_images = sorted_list_of_set failed_imgs'\<rparr>
           in Inr (written, if missing \<noteq> [] then 1 else 0)))"

text \<open>
  \<^verbatim>\<open>main\<close>: the defaults of \<^verbatim>\<open>--start\<close> and \<^verbatim>\<open>--end\<close> are the previous and the current
  month of the clock.
\<close>

record sync_args =
  arg_start :: "string option"
  arg_end :: "string option"

definition prev_month_of :: "datetime \<Rightarrow> error + datetime" where
  "prev_month_of now =
     (if month now = 1 then datetime_new (year now - 1) 12
      else datetime_new (year now) (month now - 1))"

text \<open>Lines 72 to 92: the window the arguments select.\<close>

definition sync_window :: "datetime \<Rightarrow> sync_args \<Rightarrow> error + (string \<times> string)" where
  "sync_window now args =
     (case prev_month_of now of
        Inl e \<Rightarrow> Inl e
      | Inr prev_dt \<Rightarrow>
          Inr (case arg_start args of None \<Rightarrow> strftime_Ym prev_dt | Some s \<Rightarrow> s,
               case arg_end args of None \<Rightarrow> strftime_Ym now | Some s \<Rightarrow> s))"

definition prepare_sync_main ::
  "datetime \<Rightarrow> sync_args \<Rightarrow> catalog_row list option \<Rightarrow> wallpaper_dir \<Rightarrow>
   state_file option \<Rightarrow> error + (state_file \<times> int)"
where
  "prepare_sync_main now args csv dir stored =
     (case sync_window now args of
        Inl e \<Rightarrow> Inl e
      | Inr (start, end) \<Rightarrow> reconcile start end (strftime_Ym now) csv dir stored)"

section \<open>\<^verbatim>\<open>scrape_bing.py\<close>\<close>

text \<open>
  What a run does beyond its state is recorded: every call of \<^verbatim>\<open>get_with_retry\<close> with its
  URL, and every line printed about a month or an item. The output directory is the map
  from a file name to the bytes stored under it; \<^verbatim>\<open>scrape_state.json\<close> is
  \<open>state_json\<close>.
\<close>

definition CDN_BASE :: string where
  "CDN_BASE = ''https://img.nanxiongnandi.com''"

datatype request = GetPage string | GetBody string

datatype message =
    AlreadyComplete string
  | NoImagesFound string
  | ImagesListed string nat
  | SkipOnDisk string
  | SkipState string
  | SavedKB string nat
  | FAILED string

record scrape_args =
  opt_start :: string
  opt_end :: string
  direct_only :: bool
  cdn_first :: bool
  reset :: bool
  reverse :: bool

record scraper =
  mem_done_months :: "string set"
  mem_done_images :: "string set"
  mem_failed_images :: "string set"
  n_dl :: nat
  n_skip :: nat
  n_fail :: nat
  out_files :: "string \<rightharpoonup> bytes"
  state_json :: "state_file option"
  requests :: "request list"
  printed :: "message list"

definition try_direct_cdn ::
  "network \<Rightarrow> string \<Rightarrow> string \<Rightarrow> string \<Rightarrow> scraper \<Rightarrow> bool \<times> scraper"
where
  "try_direct_cdn net ym img dest s =
     (let url = CDN_BASE @ ''/'' @ ym @ ''/'' @ img @ ''.jpg'';
          s1 = s\<lparr>requests := requests s @ [GetBody url]\<rparr>
      in case bodies net url of
           None \<Rightarrow> (False, s1)
         | Some content \<Rightarrow>
             if length content < 50000 \<or> take 2 content \<noteq> [0xff, 0xd8] then (False, s1)
             else (True, s1\<lparr>out_files := (out_files s1)(dest \<mapsto> content)\<rparr>))"

fun contains_sub :: "string \<Rightarrow> string \<Rightarrow> bool" where
  "contains_sub pat [] = (pat = [])"
| "contains_sub pat (c # cs) = (take (length pat) (c # cs) = pat \<or> contains_sub pat cs)"

fun first_width_link :: "string list \<Rightarrow> string list \<Rightarrow> string option" where
  "first_width_link [] hrefs = None"
| "first_width_link (width # widths) hrefs =
     (case filter (contains_sub width) hrefs of
        h # _ \<Rightarrow> Some h
      | [] \<Rightarrow> first_width_link widths hrefs)"

definition get_4k_url_from_detail :: "network \<Rightarrow> string \<Rightarrow> scraper \<Rightarrow> string option \<times> scraper" where
  "get_4k_url_from_detail net img s =
     (let url = BASE_URL @ ''/detail/us/'' @ img;
          s1 = s\<lparr>requests := requests s @ [GetPage url]\<rparr>
      in case pages net url of
           None \<Rightarrow> (None, s1)
         | Some hrefs \<Rightarrow> (first_width_link [''w:3840'', ''w:2560'', ''w:1920''] hrefs, s1))"

definition download_url :: "network \<Rightarrow> string \<Rightarrow> string \<Rightarrow> scraper \<Rightarrow> bool \<times> scraper" where
  "download_url net url dest s =
     (let s1 = s\<lparr>requests := requests s @ [GetBody url]\<rparr>
      in case bodies net url of
           None \<Rightarrow> (False, s1)
         | Some content \<Rightarrow>
             if length content < 50000 then (False, s1)
             else (True, s1\<lparr>out_files := (out_files s1)(dest \<mapsto> content)\<rparr>))"

text \<open>\<^verbatim>\<open>if dl_url:\<close> holds for a string that is neither \<^verbatim>\<open>None\<close> nor empty.\<close>

definition truthy :: "string option \<Rightarrow> bool" where
  "truthy u = (case u of None \<Rightarrow> False | Some x \<Rightarrow> x \<noteq> [])"

text \<open>Lines 263 to 282: the two strategies.\<close>

definition fetch_image ::
  "scrape_args \<Rightarrow> network \<Rightarrow> string \<Rightarrow> string \<Rightarrow> string \<Rightarrow> scraper \<Rightarrow> bool \<times> scraper"
where
  "fetch_image args net ym img dest s =
     (if cdn_first args \<or> direct_only args then
        (let (ok, s1) = try_direct_cdn net ym img dest s in
         if \<not> ok \<and> \<not> direct_only args then
           (let (dl_url, s2) = get_4k_url_from_detail net img s1 in
            if truthy dl_url then download_url net (the dl_url) dest s2 else (ok, s2))
         else (ok, s1))
      else
        (let (dl_url, s1) = get_4k_url_from_detail net img s in
         if truthy dl_url then download_url net (the dl_url) dest s1
         else try_direct_cdn net ym img dest s1))"

definition on_disk :: "scraper \<Rightarrow> string \<Rightarrow> bool" where
  "on_disk s dest = (case out_files s dest of None \<Rightarrow> False | Some content \<Rightarrow> length content > 50000)"

definition kb_of :: "scraper \<Rightarrow> string \<Rightarrow> nat" where
  "kb_of s dest = (case out_files s dest of None \<Rightarrow> 0 | Some content \<Rightarrow> length content div 1024)"

text \<open>The body of the loop over the images of a month, lines 247 to 294.\<close>

definition process_image :: "scrape_args \<Rightarrow> network \<Rightarrow> string \<Rightarrow> scraper \<Rightarrow> string \<Rightarrow> scraper" where
  "process_image args net ym s img =
     (let key = image_key ym img;
          dest = ym @ ''_'' @ img @ ''.jpg''
      in if on_disk s dest then
           s\<lparr>printed := printed s @ [SkipOnDisk key], n_skip := n_skip s + 1,
             mem_done_images := insert key (mem_done_images s)\<rparr>
         else if key \<in> mem_done_images s then
           s\<lparr>printed := printed s @ [SkipState key], n_skip := n_skip s + 1\<rparr>
         else
           (let (ok, s1) = fetch_image args net ym img dest s in
            if ok then
              s1\<lparr>printed := printed s1 @ [SavedKB key (kb_of s1 dest)], n_dl := n_dl s1 + 1,
                 mem_done_images := insert key (mem_done_images s1)\<rparr>
            else
              s1\<lparr>printed := printed s1 @ [FAILED key], n_fail := n_fail s1 + 1,
                 mem_failed_images := insert key (mem_failed_images s1),
                 out_files := (out_files s1)(dest := None)\<rparr>))"

fun process_images :: "scrape_args \<Rightarrow> network \<Rightarrow> string \<Rightarrow> string list \<Rightarrow> scraper \<Rightarrow> scraper" where
  "process_images args net ym [] s = s"
| "process_images args net ym (img # rest) s =
     process_images args net ym rest (process_image args net ym s img)"

definition save_state :: "scraper \<Rightarrow> scraper" where
  "save_state s =
     s\<lparr>state_json := Some \<lparr>done_months = sorted_list_of_set (mem_done_months s),
                            done_images = sorted_list_of_set (mem_done_images s),
                            failed_images = sorted_list_of_set (mem_failed_images s)\<rparr>\<rparr>"

text \<open>The body of the loop over the months, lines 227 to 299.\<close>

definition process_month :: "scrape_args \<Rightarrow> network \<Rightarrow> scraper \<Rightarrow> string \<Rightarrow> scraper" where
  "process_month args net s ym =
     (if ym \<in> mem_done_months s then s\<lparr>printed := printed s @ [AlreadyComplete ym]\<rparr>
      else
        (let image_ids = get_image_ids net ym;
             s1 = s\<lparr>requests := requests s @ [GetPage (BASE_URL @ ''/archive/us/'' @ ym)]\<rparr>
         in if image_ids = [] then
              save_state (s1\<lparr>printed := printed s1 @ [NoImagesFound ym],
                              mem_done_months := insert ym (mem_done_months s1)\<rparr>)
            else
              (let s2 = process_images args net ym image_ids
                          (s1\<lparr>printed := printed s1 @ [ImagesListed ym (length image_ids)]\<rparr>)
               in save_state (s2\<lparr>mem_done_months := insert ym (mem_done_months s2)\<rparr>))))"

fun process_months :: "scrape_args \<Rightarrow> network \<Rightarrow> string list \<Rightarrow> scraper \<Rightarrow> scraper" where
  "process_months args net [] s = s"
| "process_months args net (ym # rest) s =
     process_months args net rest (process_month args net s ym)"

definition initial_scraper :: "scrape_args \<Rightarrow> (string \<rightharpoonup> bytes) \<Rightarrow> state_file option \<Rightarrow> scraper" where
  "initial_scraper args files stored =
     (let state = (if reset args then empty_state else load_state stored) in
      \<lparr>mem_done_months = set (done_months state),
       mem_done_images = set (done_images state),
       mem_failed_images = set (failed_images state),
       n_dl = 0, n_skip = 0, n_fail = 0,
       out_files = files, state_json = stored, requests = [], printed = []\<rparr>)"

definition scrape_main ::
  "scrape_args \<Rightarrow> network \<Rightarrow> (string \<rightharpoonup> bytes) \<Rightarrow> state_file option \<Rightarrow> error + (scraper \<times> int)"
where
  "scrape_main args net files stored =
     (case generate_months (opt_start args) (opt_end args) of
        Inl e \<Rightarrow> Inl e
      | Inr months \<Rightarrow>
          (let months' = (if reverse args then rev months else months);
               s = process_months args net months' (initial_scraper args files stored)
           in Inr (s, if n_fail s = 0 then 0 else 1)))"

section \<open>Vocabulary of the specification\<close>



definition month_at :: "int \<Rightarrow> datetime" where
  "month_at i = \<lparr>year = i div 12, month = i mod 12 + 1\<rparr>"


text \<open>
  The day component of a catalog record: the digits after \<^verbatim>\<open>YYYY-MM-\<close> in its date.
\<close>

definition day_of_row :: "catalog_row \<Rightarrow> error + int" where
  "day_of_row r = py_int (drop 8 (date r))"

text \<open>A printed line that reports a failed download.\<close>

fun is_failure :: "message \<Rightarrow> bool" where
  "is_failure (FAILED key) = True"
| "is_failure _ = False"

section \<open>A reconciliation scenario\<close>

text \<open>
  February 2025, default window (January and February). The catalog has three January
  entries and one February entry; \<^verbatim>\<open>A\<close> and \<^verbatim>\<open>D\<close> are in \<^verbatim>\<open>high/\<close>, \<^verbatim>\<open>B\<close> is in the
  top-level directory with exactly the minimum size, \<^verbatim>\<open>C\<close> is one byte too small.
\<close>

definition ex_now :: datetime where
  "ex_now = \<lparr>year = 2025, month = 2\<rparr>"

definition ex_args :: sync_args where
  "ex_args = \<lparr>arg_start = None, arg_end = None\<rparr>"

definition ex_catalog :: "catalog_row list" where
  "ex_catalog =
     [\<lparr>date = ''2025-01-01'', yyyymm = ''202501'', image_id = ''C'', filename = ''202501_C.jpg''\<rparr>,
      \<lparr>date = ''2025-01-02'', yyyymm = ''202501'', image_id = ''B'', filename = ''202501_B.jpg''\<rparr>,
      \<lparr>date = ''2025-01-03'', yyyymm = ''202501'', image_id = ''A'', filename = ''202501_A.jpg''\<rparr>,
      \<lparr>date = ''2025-02-01'', yyyymm = ''202502'', image_id = ''D'', filename = ''202502_D.jpg''\<rparr>]"

definition ex_dir :: wallpaper_dir where
  "ex_dir = \<lparr>high_files = [''202501_A.jpg'' \<mapsto> 60000, ''202502_D.jpg'' \<mapsto> 70000],
             root_files = [''202501_B.jpg'' \<mapsto> 50000, ''202501_C.jpg'' \<mapsto> 49999]\<rparr>"

definition ex_stored :: state_file where
  "ex_stored = \<lparr>done_months = [''202501'', ''202502''], done_images = [''202501/C''],
                failed_images = [''202501/C'', ''202501/A'']\<rparr>"

definition ex_written :: state_file where
  "ex_written = \<lparr>done_months = [], done_images = [''202501/A'', ''202501/B'', ''202502/D''],
                failed_images = [''202501/A'']\<rparr>"

section \<open>A catalog scenario\<close>



definition ex_new_catalog :: catalog where
  "ex_new_catalog =
     [((''202412'', ''Z''), \<lparr>date = ''2024-12-01'', yyyymm = ''202412'', image_id = ''Z'',
                              filename = ''202412_Z.jpg''\<rparr>),
      ((''202501'', ''A''), \<lparr>date = ''2025-01-03'', yyyymm = ''202501'', image_id = ''A'',
                              filename = ''202501_A.jpg''\<rparr>),
      ((''202501'', ''B''), \<lparr>date = ''2025-01-02'', yyyymm = ''202501'', image_id = ''B'',
                              filename = ''202501_B.jpg''\<rparr>),
      ((''202501'', ''C''), \<lparr>date = ''2025-01-01'', yyyymm = ''202501'', image_id = ''C'',
                              filename = ''202501_C.jpg''\<rparr>)]"

section \<open>A download scenario\<close>

text \<open>
  The archive page of January 2025 lists \<^verbatim>\<open>A\<close> and \<^verbatim>\<open>B\<close>. The detail page of \<^verbatim>\<open>A\<close> has a
  1920 and a 3840 link, and the 3840 link returns three bytes; the CDN has a JPEG of
  50002 bytes for \<^verbatim>\<open>A\<close>. The detail page of \<^verbatim>\<open>B\<close> has no download link and the CDN
  returns one byte for \<^verbatim>\<open>B\<close>. A two-byte file from an earlier run lies at the
  destination of \<^verbatim>\<open>B\<close>.
\<close>

definition ex_web :: network where
  "ex_web =
     \<lparr>pages = (\<lambda>url.
         if url = ''https://bingwallpaper.anerg.com/archive/us/202501''
         then Some [''/detail/us/A'', ''/detail/us/B'']
         else if url = ''https://bingwallpaper.anerg.com/detail/us/A''
         then Some [''/about'', ''https://proxy.example/w:1920/A.jpg'',
                    ''https://proxy.example/w:3840/A.jpg'']
         else if url = ''https://bingwallpaper.anerg.com/detail/us/B''
         then Some [''/about'']
         else None),
      bodies = (\<lambda>url.
         if url = ''https://proxy.example/w:3840/A.jpg'' then Some [1, 2, 3]
         else if url = ''https://img.nanxiongnandi.com/202501/A.jpg''
         then Some (0xff # 0xd8 # replicate 50000 0)
         else if url = ''https://img.nanxiongnandi.com/202501/B.jpg'' then Some [0xff]
         else None)\<rparr>"

definition ex_detail_first :: scrape_args where
  "ex_detail_first =
     \<lparr>opt_start = ''202501'', opt_end = ''202501'', direct_only = False, cdn_first = False,
      reset = False, reverse = False\<rparr>"


definition ex_files :: "string \<rightharpoonup> bytes" where
  "ex_files = [''202501_B.jpg'' \<mapsto> [1, 2]]"

definition ex_start :: scraper where
  "ex_start =
     \<lparr>mem_done_months = {}, mem_done_images = {}, mem_failed_images = {},
      n_dl = 0, n_skip = 0, n_fail = 0, out_files = ex_files, state_json = None,
      requests = [], printed = []\<rparr>"

text \<open>
  The state the scraper reaches in this scenario without \<^verbatim>\<open>--cdn-first\<close>, starting with no
  state file: both items fail, and the month is marked done and saved.
\<close>

definition ex_final :: scraper where
  "ex_final =
     \<lparr>mem_done_months = {''202501''}, mem_done_images = {},
      mem_failed_images = {''202501/A'', ''202501/B''},
      n_dl = 0, n_skip = 0, n_fail = 2, out_files = Map.empty,
      state_json = Some \<lparr>done_months = [''202501''], done_images = [],
                           failed_images = [''202501/A'', ''202501/B'']\<rparr>,
      requests = [GetPage ''https://bingwallpaper.anerg.com/archive/us/202501'',
                  GetPage ''https://bingwallpaper.anerg.com/detail/us/A'',
                  GetBody ''https://proxy.example/w:3840/A.jpg'',
                  GetPage ''https://bingwallpaper.anerg.com/detail/us/B'',
                  GetBody ''https://img.nanxiongnandi.com/202501/B.jpg''],
      printed = [ImagesListed ''202501'' 2, FAILED ''202501/A'', FAILED ''202501/B'']\<rparr>"

section \<open>Properties\<close>

subsection \<open>Decimal digits\<close>

lemma zero_pad_2: "zero_pad 2 n = [digit_char (n div 10 mod 10), digit_char (n mod 10)]"
  by (simp add: eval_nat_numeral)

lemma div_div_10:
  "(n::int) div 10 div 10 = n div 100"
  "(n::int) div 10 div 10 div 10 = n div 1000"
  "(n::int) div 100 div 10 = n div 1000"
  by (simp_all add: div_mult2_eq[symmetric])

lemma zero_pad_4:
  "zero_pad 4 n = [digit_char (n div 1000 mod 10), digit_char (n div 100 mod 10),
                   digit_char (n div 10 mod 10), digit_char (n mod 10)]"
  by (simp add: eval_nat_numeral div_div_10)

subsection \<open>The reconciler in closed form\<close>

lemma mark_present_eq:
  "mark_present ps D = D \<union> (\<lambda>p. image_key (fst p) (snd p)) ` set ps"
  by (induction ps D rule: mark_present.induct) auto

lemma unmark_missing_eq:
  "unmark_missing ms (D, F) =
     (D - (\<lambda>p. image_key (fst p) (snd p)) ` set ms, F - (\<lambda>p. image_key (fst p) (snd p)) ` set ms)"
  by (induction ms "(D, F)" arbitrary: D F rule: unmark_missing.induct) auto

lemma present_keys:
  "(\<lambda>p. image_key (fst p) (snd p)) ` set (present_of dir rows) =
     row_key ` {r \<in> set rows. image_is_present dir (filename r)}"
  by (auto simp: present_of_def row_key_def image_iff)

lemma missing_keys:
  "(\<lambda>p. image_key (fst p) (snd p)) ` set (missing_of dir rows) =
     row_key ` {r \<in> set rows. \<not> image_is_present dir (filename r)}"
  by (auto simp: missing_of_def row_key_def image_iff)

lemma missing_months:
  "fst ` set (missing_of dir rows) = yyyymm ` {r \<in> set rows. \<not> image_is_present dir (filename r)}"
  by (auto simp: missing_of_def image_iff)

lemma missing_nonempty:
  "missing_of dir rows \<noteq> [] \<longleftrightarrow> (\<exists>r \<in> set rows. \<not> image_is_present dir (filename r))"
  by (auto simp: missing_of_def filter_empty_conv)

lemma reconcile_written:
  assumes "generate_months start end = Inr months"
  shows "reconcile start end this_month csv dir stored =
     Inr (\<lparr>done_months = sorted_list_of_set
              (update_done_months (set (done_months (load_state stored)))
                 (yyyymm ` set (load_catalog csv (set months)))
                 (yyyymm ` {r \<in> set (load_catalog csv (set months)). \<not> image_is_present dir (filename r)})
                 this_month),
            done_images = sorted_list_of_set
              ((set (done_images (load_state stored))
                  \<union> row_key ` {r \<in> set (load_catalog csv (set months)). image_is_present dir (filename r)})
               - row_key ` {r \<in> set (load_catalog csv (set months)). \<not> image_is_present dir (filename r)}),
            failed_images = sorted_list_of_set
              (set (failed_images (load_state stored))
               - row_key ` {r \<in> set (load_catalog csv (set months)). \<not> image_is_present dir (filename r)})\<rparr>,
          if (\<exists>r \<in> set (load_catalog csv (set months)). \<not> image_is_present dir (filename r)) then 1 else 0)"
  using assms
  by (simp add: reconcile_def Let_def mark_present_eq unmark_missing_eq present_keys missing_keys
        missing_months missing_nonempty)

text \<open>The same result computed on lists, for evaluating the reconciler on given files.\<close>

lemma reconcile_code:
  assumes "generate_months start end = Inr months"
  shows "reconcile start end this_month csv dir stored =
     (let rows = load_catalog csv (set months);
          pk = map row_key (filter (\<lambda>r. image_is_present dir (filename r)) rows);
          mk = map row_key (filter (\<lambda>r. \<not> image_is_present dir (filename r)) rows);
          mm = map yyyymm (filter (\<lambda>r. \<not> image_is_present dir (filename r)) rows);
          st = load_state stored
      in Inr (\<lparr>done_months = sort (remdups (filter (\<lambda>ym. ym \<noteq> this_month)
                   (filter (\<lambda>ym. ym \<notin> set mm) (done_months st @ map yyyymm rows)))),
              done_images = sort (remdups (filter (\<lambda>k. k \<notin> set mk) (done_images st @ pk))),
              failed_images = sort (remdups (filter (\<lambda>k. k \<notin> set mk) (failed_images st)))\<rparr>,
          if mk \<noteq> [] then 1 else 0))"
proof -
  have 1: "\<And>X Y. set X = Y \<Longrightarrow> sorted_list_of_set Y = sort (remdups X)"
    by (auto simp: sorted_list_of_set_sort_remdups)
  show ?thesis
    unfolding reconcile_written[OF assms] Let_def
    by (auto intro!: 1 simp: update_done_months_def filter_empty_conv)
qed

lemma main_reconcile:
  assumes "sync_window now args = Inr (start, end)"
  shows "prepare_sync_main now args csv dir stored =
         reconcile start end (strftime_Ym now) csv dir stored"
  using assms by (simp add: prepare_sync_main_def)

subsection \<open>The scenario evaluated\<close>

lemma gm_202501_202502: "generate_months ''202501'' ''202502'' = Inr [''202501'', ''202502'']"
  by code_simp

lemma ex_window: "sync_window ex_now ex_args = Inr (''202501'', ''202502'')"
  by (simp add: ex_now_def ex_args_def sync_window_def prev_month_of_def datetime_new_def
        strftime_Ym_def year_decimal_def zero_pad_4 zero_pad_2 digit_char_def)

lemma ex_this_month: "strftime_Ym ex_now = ''202502''"
  by (simp add: ex_now_def strftime_Ym_def year_decimal_def zero_pad_4 zero_pad_2 digit_char_def)

lemma ex_rows: "load_catalog (Some ex_catalog) (set [''202501'', ''202502'']) = ex_catalog"
  by (simp add: load_catalog_def ex_catalog_def)

lemma ex_present:
  "filter (\<lambda>r. image_is_present ex_dir (filename r)) ex_catalog
     = [ex_catalog ! 1, ex_catalog ! 2, ex_catalog ! 3]"
  "filter (\<lambda>r. \<not> image_is_present ex_dir (filename r)) ex_catalog = [ex_catalog ! 0]"
  by (simp_all add: ex_catalog_def ex_dir_def image_is_present_def candidate_ok_def MIN_FILE_SIZE_def)

lemma ex_is_present:
  "\<not> image_is_present ex_dir (filename (ex_catalog ! 0))"
  "image_is_present ex_dir (filename (ex_catalog ! 1))"
  "image_is_present ex_dir (filename (ex_catalog ! 2))"
  "image_is_present ex_dir (filename (ex_catalog ! 3))"
  by (simp_all add: ex_catalog_def ex_dir_def image_is_present_def candidate_ok_def MIN_FILE_SIZE_def)

lemma ex_in_catalog:
  "ex_catalog ! 0 \<in> set ex_catalog" "ex_catalog ! 1 \<in> set ex_catalog"
  "ex_catalog ! 2 \<in> set ex_catalog" "ex_catalog ! 3 \<in> set ex_catalog"
  by (simp_all add: ex_catalog_def)

lemma ex_main:
  "prepare_sync_main ex_now ex_args (Some ex_catalog) ex_dir (Some ex_stored) = Inr (ex_written, 1)"
  unfolding main_reconcile[OF ex_window] reconcile_code[OF gm_202501_202502] ex_rows Let_def
    ex_present ex_this_month
  by (simp add: ex_catalog_def ex_stored_def ex_written_def row_key_def image_key_def load_state_def)

subsection \<open>C1: item keys after reconciliation\<close>

text \<open>
  C1, as the code has it. After \<^verbatim>\<open>prepare_sync\<close> has run over a window: the key of every
  catalog entry whose file is missing is in neither \<open>done_images\<close> nor
  \<open>failed_images\<close>; the key of every entry whose file is present (and that no missing
  entry shares) is in \<open>done_images\<close>, and it is in \<open>failed_images\<close> exactly when it was
  there before the run, because a present key is added to \<open>done_images\<close> and nothing
  removes it from \<open>failed_images\<close>. So a key is in both sets of the written state exactly
  when it was in \<open>failed_images\<close> before, no entry with that key is missing, and it was in
  \<open>done_images\<close> before or is the key of an entry of the window.
\<close>

theorem reconciler_images:
  assumes W: "sync_window now args = Inr (start, end)"
    and G: "generate_months start end = Inr months"
    and M: "prepare_sync_main now args csv dir stored = Inr (written, rc)"
  shows "(\<forall>r \<in> set (load_catalog csv (set months)). \<not> image_is_present dir (filename r) \<longrightarrow>
            row_key r \<notin> set (done_images written) \<and> row_key r \<notin> set (failed_images written))
       \<and> (\<forall>r \<in> set (load_catalog csv (set months)).
            image_is_present dir (filename r) \<and>
            (\<forall>r' \<in> set (load_catalog csv (set months)).
               row_key r' = row_key r \<longrightarrow> image_is_present dir (filename r')) \<longrightarrow>
            row_key r \<in> set (done_images written) \<and>
            (row_key r \<in> set (failed_images written)
               \<longleftrightarrow> row_key r \<in> set (failed_images (load_state stored))))
       \<and> (\<forall>k. k \<in> set (done_images written) \<and> k \<in> set (failed_images written) \<longleftrightarrow>
            k \<in> set (failed_images (load_state stored)) \<and>
            (\<forall>r \<in> set (load_catalog csv (set months)).
               row_key r = k \<longrightarrow> image_is_present dir (filename r)) \<and>
            (k \<in> set (done_images (load_state stored)) \<or>
             (\<exists>r \<in> set (load_catalog csv (set months)). row_key r = k)))"
proof -
  let ?rows = "load_catalog csv (set months)"
  let ?P = "row_key ` {r \<in> set ?rows. image_is_present dir (filename r)}"
  let ?M = "row_key ` {r \<in> set ?rows. \<not> image_is_present dir (filename r)}"
  from M have R: "reconcile start end (strftime_Ym now) csv dir stored = Inr (written, rc)"
    by (simp add: main_reconcile[OF W])
  have D: "set (done_images written) = (set (done_images (load_state stored)) \<union> ?P) - ?M"
    using R unfolding reconcile_written[OF G] by auto
  have F: "set (failed_images written) = set (failed_images (load_state stored)) - ?M"
    using R unfolding reconcile_written[OF G] by auto
  have inM: "\<And>k. k \<in> ?M \<longleftrightarrow> (\<exists>r \<in> set ?rows. row_key r = k \<and> \<not> image_is_present dir (filename r))"
    by auto
  have inP: "\<And>k. k \<in> ?P \<longleftrightarrow> (\<exists>r \<in> set ?rows. row_key r = k \<and> image_is_present dir (filename r))"
    by auto
  have 1: "\<forall>r \<in> set ?rows. \<not> image_is_present dir (filename r) \<longrightarrow>
            row_key r \<notin> set (done_images written) \<and> row_key r \<notin> set (failed_images written)"
    unfolding D F by blast
  have 2: "\<forall>r \<in> set ?rows.
            image_is_present dir (filename r) \<and>
            (\<forall>r' \<in> set ?rows. row_key r' = row_key r \<longrightarrow> image_is_present dir (filename r')) \<longrightarrow>
            row_key r \<in> set (done_images written) \<and>
            (row_key r \<in> set (failed_images written)
               \<longleftrightarrow> row_key r \<in> set (failed_images (load_state stored)))"
  proof (intro ballI impI)
    fix r assume r: "r \<in> set ?rows"
      and p: "image_is_present dir (filename r) \<and>
            (\<forall>r' \<in> set ?rows. row_key r' = row_key r \<longrightarrow> image_is_present dir (filename r'))"
    from r p have a: "row_key r \<in> ?P" unfolding inP by blast
    from p have b: "row_key r \<notin> ?M" unfolding inM by blast
    show "row_key r \<in> set (done_images written) \<and>
            (row_key r \<in> set (failed_images written)
               \<longleftrightarrow> row_key r \<in> set (failed_images (load_state stored)))"
      unfolding D F using a b by simp
  qed
  have 3: "\<forall>k. k \<in> set (done_images written) \<and> k \<in> set (failed_images written) \<longleftrightarrow>
            k \<in> set (failed_images (load_state stored)) \<and>
            (\<forall>r \<in> set ?rows. row_key r = k \<longrightarrow> image_is_present dir (filename r)) \<and>
            (k \<in> set (done_images (load_state stored)) \<or> (\<exists>r \<in> set ?rows. row_key r = k))"
  proof
    fix k
    have m: "k \<notin> ?M \<longleftrightarrow> (\<forall>r \<in> set ?rows. row_key r = k \<longrightarrow> image_is_present dir (filename r))"
      unfolding inM by blast
    have p: "k \<notin> ?M \<Longrightarrow> k \<in> ?P \<longleftrightarrow> (\<exists>r \<in> set ?rows. row_key r = k)"
      unfolding inM inP by blast
    show "k \<in> set (done_images written) \<and> k \<in> set (failed_images written) \<longleftrightarrow>
            k \<in> set (failed_images (load_state stored)) \<and>
            (\<forall>r \<in> set ?rows. row_key r = k \<longrightarrow> image_is_present dir (filename r)) \<and>
            (k \<in> set (done_images (load_state stored)) \<or> (\<exists>r \<in> set ?rows. row_key r = k))"
      unfolding D F m[symmetric] using p by auto
  qed
  from 1 2 3 show ?thesis by (intro conjI)
qed

theorem reconciler_images_witness:
  "sync_window ex_now ex_args = Inr (''202501'', ''202502'')
   \<and> generate_months ''202501'' ''202502'' = Inr [''202501'', ''202502'']
   \<and> prepare_sync_main ex_now ex_args (Some ex_catalog) ex_dir (Some ex_stored) = Inr (ex_written, 1)
   \<and> ex_catalog ! 0 \<in> set (load_catalog (Some ex_catalog) (set [''202501'', ''202502'']))
   \<and> \<not> image_is_present ex_dir (filename (ex_catalog ! 0))
   \<and> row_key (ex_catalog ! 0) \<in> set (done_images (load_state (Some ex_stored)))
   \<and> row_key (ex_catalog ! 0) \<in> set (failed_images (load_state (Some ex_stored)))
   \<and> row_key (ex_catalog ! 0) \<notin> set (done_images ex_written)
   \<and> row_key (ex_catalog ! 0) \<notin> set (failed_images ex_written)"
proof -
  note T = reconciler_images[OF ex_window gm_202501_202502 ex_main]
  have s: "row_key (ex_catalog ! 0) \<in> set (done_images (load_state (Some ex_stored)))"
     "row_key (ex_catalog ! 0) \<in> set (failed_images (load_state (Some ex_stored)))"
    by (simp_all add: ex_catalog_def ex_stored_def load_state_def row_key_def image_key_def)
  from T ex_in_catalog(1) ex_is_present(1) show ?thesis
    using ex_window gm_202501_202502 ex_main s unfolding ex_rows by blast
qed

text \<open>
  The claim as written fails: the file of \<^verbatim>\<open>202501/A\<close> is present, the key was in
  \<open>failed_images\<close> before the run, and the written state has it in both sets.
\<close>

theorem reconciler_present_key_stays_failed:
  "prepare_sync_main \<lparr>year = 2025, month = 2\<rparr> \<lparr>arg_start = None, arg_end = None\<rparr>
     (Some [\<lparr>date = ''2025-01-03'', yyyymm = ''202501'', image_id = ''A'',
              filename = ''202501_A.jpg''\<rparr>])
     \<lparr>high_files = [''202501_A.jpg'' \<mapsto> 60000], root_files = Map.empty\<rparr>
     (Some \<lparr>done_months = [], done_images = [], failed_images = [''202501/A'']\<rparr>)
   = Inr (\<lparr>done_months = [''202501''], done_images = [''202501/A''],
            failed_images = [''202501/A'']\<rparr>, 0)"
proof -
  let ?A = "\<lparr>date = ''2025-01-03'', yyyymm = ''202501'', image_id = ''A'',
              filename = ''202501_A.jpg''\<rparr>"
  let ?dir = "\<lparr>high_files = [''202501_A.jpg'' \<mapsto> 60000], root_files = Map.empty\<rparr>"
  have w: "sync_window \<lparr>year = 2025, month = 2\<rparr> \<lparr>arg_start = None, arg_end = None\<rparr>
             = Inr (''202501'', ''202502'')"
    by (simp add: sync_window_def prev_month_of_def datetime_new_def strftime_Ym_def
          year_decimal_def zero_pad_4 zero_pad_2 digit_char_def)
  have t: "strftime_Ym \<lparr>year = 2025, month = 2\<rparr> = ''202502''"
    by (simp add: strftime_Ym_def year_decimal_def zero_pad_4 zero_pad_2 digit_char_def)
  have rows: "load_catalog (Some [?A]) (set [''202501'', ''202502'']) = [?A]"
    by (simp add: load_catalog_def)
  have p: "filter (\<lambda>r. image_is_present ?dir (filename r)) [?A] = [?A]"
    "filter (\<lambda>r. \<not> image_is_present ?dir (filename r)) [?A] = []"
    by (simp_all add: image_is_present_def candidate_ok_def MIN_FILE_SIZE_def)
  show ?thesis
    unfolding main_reconcile[OF w] reconcile_code[OF gm_202501_202502] rows Let_def p t
    by (simp add: row_key_def image_key_def load_state_def)
qed

subsection \<open>C2: months after reconciliation\<close>

text \<open>
  C2. In the state \<^verbatim>\<open>prepare_sync\<close> writes, a month is in \<open>done_months\<close> exactly when it
  is not the current month, none of its catalog entries in the window is missing, and it
  was there before or has a catalog entry in the window. Hence a month that was not there
  before is added iff it has at least one entry, no missing entry and is not the current
  month; a month with a missing entry is not in the result; and the current month is
  never in the result, whatever the window, the disk and the state before.
\<close>

theorem reconciler_done_months:
  assumes W: "sync_window now args = Inr (start, end)"
    and G: "generate_months start end = Inr months"
    and M: "prepare_sync_main now args csv dir stored = Inr (written, rc)"
  shows "(\<forall>ym. ym \<in> set (done_months written) \<longleftrightarrow>
            ym \<noteq> strftime_Ym now \<and>
            (\<forall>r \<in> set (load_catalog csv (set months)).
               yyyymm r = ym \<longrightarrow> image_is_present dir (filename r)) \<and>
            (ym \<in> set (done_months (load_state stored)) \<or>
             (\<exists>r \<in> set (load_catalog csv (set months)). yyyymm r = ym)))
       \<and> (\<forall>ym. ym \<notin> set (done_months (load_state stored)) \<longrightarrow>
            (ym \<in> set (done_months written) \<longleftrightarrow>
               (\<exists>r \<in> set (load_catalog csv (set months)). yyyymm r = ym) \<and>
               (\<forall>r \<in> set (load_catalog csv (set months)).
                  yyyymm r = ym \<longrightarrow> image_is_present dir (filename r)) \<and>
               ym \<noteq> strftime_Ym now))
       \<and> (\<forall>r \<in> set (load_catalog csv (set months)).
            \<not> image_is_present dir (filename r) \<longrightarrow> yyyymm r \<notin> set (done_months written))
       \<and> strftime_Ym now \<notin> set (done_months written)"
proof -
  let ?rows = "load_catalog csv (set months)"
  from M have R: "reconcile start end (strftime_Ym now) csv dir stored = Inr (written, rc)"
    by (simp add: main_reconcile[OF W])
  have fin: "finite (update_done_months (set (done_months (load_state stored))) (yyyymm ` set ?rows)
        (yyyymm ` {r \<in> set ?rows. \<not> image_is_present dir (filename r)}) (strftime_Ym now))"
    by (simp add: update_done_months_def)
  have D: "set (done_months written) =
      update_done_months (set (done_months (load_state stored))) (yyyymm ` set ?rows)
        (yyyymm ` {r \<in> set ?rows. \<not> image_is_present dir (filename r)}) (strftime_Ym now)"
    using R fin unfolding reconcile_written[OF G] by auto
  show ?thesis unfolding D update_done_months_def Let_def
    by (intro conjI ballI allI impI; blast)
qed

theorem reconciler_done_months_witness:
  "sync_window ex_now ex_args = Inr (''202501'', ''202502'')
   \<and> generate_months ''202501'' ''202502'' = Inr [''202501'', ''202502'']
   \<and> prepare_sync_main ex_now ex_args (Some ex_catalog) ex_dir (Some ex_stored) = Inr (ex_written, 1)
   \<and> ex_catalog ! 3 \<in> set (load_catalog (Some ex_catalog) (set [''202501'', ''202502'']))
   \<and> yyyymm (ex_catalog ! 3) = strftime_Ym ex_now
   \<and> image_is_present ex_dir (filename (ex_catalog ! 3))
   \<and> strftime_Ym ex_now \<in> set (done_months (load_state (Some ex_stored)))
   \<and> strftime_Ym ex_now \<notin> set (done_months ex_written)
   \<and> ex_catalog ! 0 \<in> set (load_catalog (Some ex_catalog) (set [''202501'', ''202502'']))
   \<and> \<not> image_is_present ex_dir (filename (ex_catalog ! 0))
   \<and> yyyymm (ex_catalog ! 0) \<notin> set (done_months ex_written)"
proof -
  note T = reconciler_done_months[OF ex_window gm_202501_202502 ex_main]
  have c: "yyyymm (ex_catalog ! 3) = strftime_Ym ex_now"
    by (simp add: ex_this_month ex_catalog_def)
  have d: "strftime_Ym ex_now \<in> set (done_months (load_state (Some ex_stored)))"
    by (simp add: ex_this_month load_state_def ex_stored_def)
  from T ex_in_catalog ex_is_present show ?thesis
    using ex_window gm_202501_202502 ex_main c d unfolding ex_rows by blast
qed

subsection \<open>C7: reconciling twice\<close>

lemma main_InrD:
  assumes "prepare_sync_main now args csv dir stored = Inr res"
  obtains start "end" months where "sync_window now args = Inr (start, end)"
    and "generate_months start end = Inr months"
    and "reconcile start end (strftime_Ym now) csv dir stored = Inr res"
proof -
  from assms obtain start "end" where W: "sync_window now args = Inr (start, end)"
    by (auto simp: prepare_sync_main_def split: sum.splits)
  with assms have R: "reconcile start end (strftime_Ym now) csv dir stored = Inr res"
    by (simp add: main_reconcile)
  then obtain months where "generate_months start end = Inr months"
    by (auto simp: reconcile_def split: sum.splits)
  with W R that show thesis by blast
qed

lemma update_done_months_idem:
  "update_done_months (update_done_months X C MM t) C MM t = update_done_months X C MM t"
  by (auto simp: update_done_months_def)

lemma finite_update_done_months: "finite X \<Longrightarrow> finite C \<Longrightarrow> finite (update_done_months X C MM t)"
  by (simp add: update_done_months_def)

text \<open>
  C7. When \<^verbatim>\<open>prepare_sync\<close> has written a state and returned, running it again in the
  same month with the same arguments, catalog and disk, on the state it wrote, writes the
  same state and returns the same value.
\<close>

theorem reconciler_idempotent:
  assumes M: "prepare_sync_main now args csv dir stored = Inr (written, rc)"
  shows "prepare_sync_main now args csv dir (Some written) = Inr (written, rc)"
proof -
  from M obtain start "end" months where W: "sync_window now args = Inr (start, end)"
    and G: "generate_months start end = Inr months"
    and R: "reconcile start end (strftime_Ym now) csv dir stored = Inr (written, rc)"
    by (rule main_InrD)
  let ?rows = "load_catalog csv (set months)"
  let ?P = "row_key ` {r \<in> set ?rows. image_is_present dir (filename r)}"
  let ?M = "row_key ` {r \<in> set ?rows. \<not> image_is_present dir (filename r)}"
  let ?C = "yyyymm ` set ?rows"
  let ?MM = "yyyymm ` {r \<in> set ?rows. \<not> image_is_present dir (filename r)}"
  let ?st = "load_state stored"
  let ?dm = "update_done_months (set (done_months ?st)) ?C ?MM (strftime_Ym now)"
  let ?di = "(set (done_images ?st) \<union> ?P) - ?M"
  let ?fi = "set (failed_images ?st) - ?M"
  from R have wr: "written = \<lparr>done_months = sorted_list_of_set ?dm,
       done_images = sorted_list_of_set ?di, failed_images = sorted_list_of_set ?fi\<rparr>"
    and rc: "rc = (if (\<exists>r \<in> set ?rows. \<not> image_is_present dir (filename r)) then 1 else 0)"
    unfolding reconcile_written[OF G] by simp_all
  have fdm: "finite ?dm" by (simp add: finite_update_done_months)
  have sdm: "set (done_months written) = ?dm" unfolding wr using fdm by simp
  have sdi: "set (done_images written) = ?di" unfolding wr by simp
  have sfi: "set (failed_images written) = ?fi" unfolding wr by simp
  have l: "load_state (Some written) = written" by (simp add: load_state_def)
  have i1: "update_done_months ?dm ?C ?MM (strftime_Ym now) = ?dm"
    by (rule update_done_months_idem)
  have i2: "(?di \<union> ?P) - ?M = ?di" by blast
  have i3: "?fi - ?M = ?fi" by blast
  have "reconcile start end (strftime_Ym now) csv dir (Some written) = Inr (written, rc)"
    unfolding reconcile_written[OF G] l sdm sdi sfi i1 i2 i3 using wr rc by simp
  then show ?thesis by (simp add: main_reconcile[OF W])
qed

theorem reconciler_idempotent_witness:
  "prepare_sync_main ex_now ex_args (Some ex_catalog) ex_dir (Some ex_stored) = Inr (ex_written, 1)
   \<and> ex_stored \<noteq> ex_written
   \<and> prepare_sync_main ex_now ex_args (Some ex_catalog) ex_dir (Some ex_written) = Inr (ex_written, 1)"
  using reconciler_idempotent[OF ex_main] ex_main
  by (simp add: ex_stored_def ex_written_def)

subsection \<open>Month keys and their decimal form\<close>



lemma digit_cases:
  "0 \<le> (d::int) \<Longrightarrow> d \<le> 9 \<Longrightarrow>
     d = 0 \<or> d = 1 \<or> d = 2 \<or> d = 3 \<or> d = 4 \<or> d = 5 \<or> d = 6 \<or> d = 7 \<or> d = 8 \<or> d = 9"
  by arith

lemma digit_char_is_digit:
  assumes "0 \<le> d" "d \<le> 9"
  shows "is_digit (digit_char d) \<and> digit_val (digit_char d) = d"
  using digit_cases[OF assms]
  by (elim disjE; simp add: is_digit_def digit_char_def digit_val_def)

lemma length_zero_pad: "length (zero_pad w n) = w"
  by (induction w arbitrary: n) auto

lemma zero_pad_digits: "0 \<le> n \<Longrightarrow> list_all is_digit (zero_pad w n)"
proof (induction w arbitrary: n)
  case 0 show ?case by simp
next
  case (Suc w)
  have "0 \<le> n mod 10" "n mod 10 \<le> 9" using Suc.prems by simp_all
  then have "is_digit (digit_char (n mod 10))" using digit_char_is_digit by blast
  moreover have "0 \<le> n div 10" using Suc.prems by simp
  ultimately show ?case using Suc.IH by simp
qed

lemma foldl_zero_pad:
  "0 \<le> n \<Longrightarrow> n < 10 ^ w \<Longrightarrow> foldl (\<lambda>a c. 10 * a + digit_val c) 0 (zero_pad w n) = n"
proof (induction w arbitrary: n)
  case 0 then show ?case by simp
next
  case (Suc w)
  have d: "digit_val (digit_char (n mod 10)) = n mod 10"
    using digit_char_is_digit[of "n mod 10"] Suc.prems by simp
  have "0 \<le> n div 10" "n div 10 < 10 ^ w" using Suc.prems by auto
  then have "foldl (\<lambda>a c. 10 * a + digit_val c) 0 (zero_pad w (n div 10)) = n div 10"
    by (rule Suc.IH)
  then show ?case by (simp add: d)
qed

lemma py_int_zero_pad:
  "0 \<le> n \<Longrightarrow> n < 10 ^ w \<Longrightarrow> 0 < w \<Longrightarrow> py_int (zero_pad w n) = Inr n"
  using length_zero_pad[of w n]
  by (auto simp: py_int_def zero_pad_digits foldl_zero_pad)







subsection \<open>The order of month keys\<close>









subsection \<open>C9: the range of months\<close>














lemma year_month_at: "0 \<le> i \<Longrightarrow> year (month_at i) = i div 12"
  by (simp add: month_at_def)




subsection \<open>C6: assigning dates\<close>

lemma days_in_month_bounds: "28 \<le> days_in_month y m \<and> days_in_month y m \<le> 31"
  by (simp add: days_in_month_def)

lemma assign_loop_ok:
  assumes "1 \<le> y" "y \<le> 9999" "1 \<le> m" "m \<le> 12"
    and "n - position + 1 \<le> days_in_month y m"
    and "int (length ids) \<le> n - position + 1"
  shows "assign_loop ym y m n position ids rows =
     Inr (rows @ map (\<lambda>k. \<lparr>date = zero_pad 4 y @ ''-'' @ zero_pad 2 m @ ''-''
                                      @ zero_pad 2 (n - position + 1 - int k),
                              yyyymm = ym, image_id = ids ! k,
                              filename = ym @ ''_'' @ ids ! k @ ''.jpg''\<rparr>) [0..<length ids])"
  using assms(5,6)
proof (induction ids arbitrary: position rows)
  case Nil show ?case by simp
next
  case (Cons img rest)
  let ?day = "n - position + 1"
  have d: "date_isoformat y m ?day =
       Inr (zero_pad 4 y @ ''-'' @ zero_pad 2 m @ ''-'' @ zero_pad 2 ?day)"
    using assms(1-4) Cons.prems by (simp add: date_isoformat_def)
  have IH: "assign_loop ym y m n (position + 1) rest rows' =
     Inr (rows' @ map (\<lambda>k. \<lparr>date = zero_pad 4 y @ ''-'' @ zero_pad 2 m @ ''-''
                                      @ zero_pad 2 (n - (position + 1) + 1 - int k),
                              yyyymm = ym, image_id = rest ! k,
                              filename = ym @ ''_'' @ rest ! k @ ''.jpg''\<rparr>) [0..<length rest])"
    for rows'
    using Cons.prems by (intro Cons.IH) auto
  have u: "[0..<length (img # rest)] = 0 # map Suc [0..<length rest]"
    by (simp add: upt_conv_Cons map_Suc_upt del: upt_Suc)
  have eq: "n - position + 1 - int (Suc k) = n - (position + 1) + 1 - int k" for k
    by simp
  show ?case
    unfolding u by (simp add: d IH o_def Let_def eq del: of_nat_Suc)
qed

lemma assign_loop_too_many:
  assumes "days_in_month y m < n - position + 1"
  shows "assign_loop ym y m n position (img # rest) rows = Inl ValueError"
  using assms by (simp add: date_isoformat_def)

lemma day_of_iso:
  assumes "0 \<le> d" "d < 100"
  shows "py_int (drop 8 (zero_pad 4 y @ ''-'' @ zero_pad 2 m @ ''-'' @ zero_pad 2 d)) = Inr d"
proof -
  have "drop 8 (zero_pad 4 y @ ''-'' @ zero_pad 2 m @ ''-'' @ zero_pad 2 d) = zero_pad 2 d"
    by (simp add: length_zero_pad)
  then show ?thesis using py_int_zero_pad[of d 2] assms by simp
qed

text \<open>
  C6, as the code has it. For a month key whose year and month are valid and an id list of
  length \<open>n\<close> that is not longer than the month has days, \<^verbatim>\<open>assign_dates\<close> returns one
  record per position, in order, and the record at position \<open>p\<close> carries the id at that
  position and the date of day \<open>n - p + 1\<close>; the days are those of \<open>{1..n}\<close>, each once,
  position 1 getting day \<open>n\<close> and position \<open>n\<close> day 1. For a longer list the \<^verbatim>\<open>date\<close>
  constructor raises \<^verbatim>\<open>ValueError\<close> at the first position and no record is produced.
\<close>

theorem assign_dates_days:
  assumes Y: "py_int (take 4 ym) = Inr y" and Mo: "py_int (take 2 (drop 4 ym)) = Inr m"
    and V: "1 \<le> y" "y \<le> 9999" "1 \<le> m" "m \<le> 12"
    and N: "n = int (length ids)"
  shows "(n \<le> days_in_month y m \<longrightarrow>
           (\<exists>rows. assign_dates ym ids = Inr rows \<and> length rows = length ids
              \<and> (\<forall>p. 1 \<le> p \<and> p \<le> n \<longrightarrow>
                    image_id (rows ! nat (p - 1)) = ids ! nat (p - 1)
                    \<and> yyyymm (rows ! nat (p - 1)) = ym
                    \<and> filename (rows ! nat (p - 1)) = ym @ ''_'' @ ids ! nat (p - 1) @ ''.jpg''
                    \<and> date_isoformat y m (n - p + 1) = Inr (date (rows ! nat (p - 1)))
                    \<and> day_of_row (rows ! nat (p - 1)) = Inr (n - p + 1))
              \<and> day_of_row ` set rows = Inr ` {1..n}
              \<and> distinct (map day_of_row rows)))
       \<and> (days_in_month y m < n \<longrightarrow> assign_dates ym ids = Inl ValueError)
       \<and> bij_betw (\<lambda>p. n - p + 1) {1..n} {1..n}"
proof -
  let ?row = "\<lambda>k. \<lparr>date = zero_pad 4 y @ ''-'' @ zero_pad 2 m @ ''-'' @ zero_pad 2 (n - int k),
                    yyyymm = ym, image_id = ids ! k, filename = ym @ ''_'' @ ids ! k @ ''.jpg''\<rparr>"
  let ?rows = "map ?row [0..<length ids]"
  have A: "assign_dates ym ids = assign_loop ym y m n 1 ids []"
    using Y Mo N by (simp add: assign_dates_def)
  have bij: "bij_betw (\<lambda>p. n - p + 1) {1..n} {1..n}"
    by (rule bij_betw_byWitness[where f' = "\<lambda>d. n - d + 1"]) auto
  have big: "days_in_month y m < n \<Longrightarrow> assign_dates ym ids = Inl ValueError"
  proof -
    assume b: "days_in_month y m < n"
    then have "0 < n" using days_in_month_bounds[of y m] by simp
    then obtain img rest where "ids = img # rest" using N by (cases ids) auto
    then show ?thesis unfolding A using assign_loop_too_many[of y m n 1] b by simp
  qed
  have ok: "\<exists>rows. assign_dates ym ids = Inr rows \<and> length rows = length ids
              \<and> (\<forall>p. 1 \<le> p \<and> p \<le> n \<longrightarrow>
                    image_id (rows ! nat (p - 1)) = ids ! nat (p - 1)
                    \<and> yyyymm (rows ! nat (p - 1)) = ym
                    \<and> filename (rows ! nat (p - 1)) = ym @ ''_'' @ ids ! nat (p - 1) @ ''.jpg''
                    \<and> date_isoformat y m (n - p + 1) = Inr (date (rows ! nat (p - 1)))
                    \<and> day_of_row (rows ! nat (p - 1)) = Inr (n - p + 1))
              \<and> day_of_row ` set rows = Inr ` {1..n}
              \<and> distinct (map day_of_row rows)"
    if le: "n \<le> days_in_month y m"
  proof -
    have R: "assign_dates ym ids = Inr ?rows"
      unfolding A using assign_loop_ok[OF V, of n 1 ids ym "[]"] le N by simp
    have n31: "n \<le> 31" using le days_in_month_bounds[of y m] by simp
    have day: "day_of_row (?row k) = Inr (n - int k)" if "k < length ids" for k
      unfolding day_of_row_def using day_of_iso[of "n - int k" y m] that N n31 by simp
    have P: "image_id (?rows ! nat (p - 1)) = ids ! nat (p - 1)
          \<and> yyyymm (?rows ! nat (p - 1)) = ym
          \<and> filename (?rows ! nat (p - 1)) = ym @ ''_'' @ ids ! nat (p - 1) @ ''.jpg''
          \<and> date_isoformat y m (n - p + 1) = Inr (date (?rows ! nat (p - 1)))
          \<and> day_of_row (?rows ! nat (p - 1)) = Inr (n - p + 1)"
      if p: "1 \<le> p \<and> p \<le> n" for p
    proof -
      have k: "nat (p - 1) < length ids" using p N by auto
      have e: "?rows ! nat (p - 1) = ?row (nat (p - 1))" using k by simp
      have i: "n - int (nat (p - 1)) = n - p + 1" using p by simp
      have v: "1 \<le> n - p + 1" "n - p + 1 \<le> days_in_month y m" using p le by auto
      have dy: "day_of_row (?rows ! nat (p - 1)) = Inr (n - p + 1)"
        unfolding e using day[OF k] unfolding i .
      have dt: "date (?rows ! nat (p - 1)) =
          zero_pad 4 y @ ''-'' @ zero_pad 2 m @ ''-'' @ zero_pad 2 (n - p + 1)"
        unfolding e by (simp only: catalog_row.select_convs i)
      have iso: "date_isoformat y m (n - p + 1) =
          Inr (zero_pad 4 y @ ''-'' @ zero_pad 2 m @ ''-'' @ zero_pad 2 (n - p + 1))"
        using V v by (simp add: date_isoformat_def)
      have rest: "image_id (?rows ! nat (p - 1)) = ids ! nat (p - 1)"
        "yyyymm (?rows ! nat (p - 1)) = ym"
        "filename (?rows ! nat (p - 1)) = ym @ ''_'' @ ids ! nat (p - 1) @ ''.jpg''"
        unfolding e by simp_all
      show ?thesis using dy rest unfolding iso dt by simp
    qed
    have M: "map day_of_row ?rows = map (\<lambda>k. Inr (n - int k)) [0..<length ids]"
      using day by simp
    have S: "day_of_row ` set ?rows = Inr ` {1..n}"
    proof -
      have "day_of_row ` set ?rows = set (map day_of_row ?rows)" by (simp only: set_map)
      also have "\<dots> = Inr ` (\<lambda>k. n - int k) ` {0..<length ids}" unfolding M by auto
      also have "(\<lambda>k. n - int k) ` {0..<length ids} = {1..n}"
      proof (intro set_eqI iffI)
        fix d assume "d \<in> (\<lambda>k. n - int k) ` {0..<length ids}"
        then show "d \<in> {1..n}" using N by auto
      next
        fix d assume d: "d \<in> {1..n}"
        then have "nat (n - d) \<in> {0..<length ids}" "d = n - int (nat (n - d))" using N by auto
        then show "d \<in> (\<lambda>k. n - int k) ` {0..<length ids}" by blast
      qed
      finally show ?thesis .
    qed
    have Di: "distinct (map day_of_row ?rows)"
      unfolding M by (simp add: distinct_map inj_on_def)
    from R P S Di show ?thesis by (intro exI[of _ ?rows]) simp
  qed
  from ok big bij show ?thesis by blast
qed


theorem assign_dates_days_witness:
  "py_int (take 4 ''202501'') = Inr 2025 \<and> py_int (take 2 (drop 4 ''202501'')) = Inr 1
   \<and> (3::int) = int (length [''A'', ''B'', ''C'']) \<and> 3 \<le> days_in_month 2025 1
   \<and> (\<exists>rows. assign_dates ''202501'' [''A'', ''B'', ''C''] = Inr rows \<and> length rows = 3
          \<and> image_id (rows ! 0) = ''A'' \<and> day_of_row (rows ! 0) = Inr 3
          \<and> image_id (rows ! 1) = ''B'' \<and> day_of_row (rows ! 1) = Inr 2
          \<and> image_id (rows ! 2) = ''C'' \<and> day_of_row (rows ! 2) = Inr 1
          \<and> date (rows ! 0) = ''2025-01-03'')"
proof -
  have y: "py_int (take 4 ''202501'') = Inr 2025"
    and m: "py_int (take 2 (drop 4 ''202501'')) = Inr 1"
    by (simp_all add: py_int_def is_digit_def digit_val_def)
  have n: "(3::int) = int (length [''A'', ''B'', ''C''])" by simp
  have d: "3 \<le> days_in_month 2025 1" by (simp add: days_in_month_def)
  have iso: "date_isoformat 2025 1 3 = Inr ''2025-01-03''"
    by (simp add: date_isoformat_def days_in_month_def zero_pad_4 zero_pad_2 digit_char_def)
  from assign_dates_days[OF y m _ _ _ _ n] d
  obtain rows where R: "assign_dates ''202501'' [''A'', ''B'', ''C''] = Inr rows"
    "length rows = length [''A'', ''B'', ''C'']"
    and P: "\<forall>p. 1 \<le> p \<and> p \<le> 3 \<longrightarrow>
           image_id (rows ! nat (p - 1)) = [''A'', ''B'', ''C''] ! nat (p - 1)
           \<and> yyyymm (rows ! nat (p - 1)) = ''202501''
           \<and> filename (rows ! nat (p - 1)) = ''202501'' @ ''_'' @ [''A'', ''B'', ''C''] ! nat (p - 1) @ ''.jpg''
           \<and> date_isoformat 2025 1 (3 - p + 1) = Inr (date (rows ! nat (p - 1)))
           \<and> day_of_row (rows ! nat (p - 1)) = Inr (3 - p + 1)"
    by auto
  from P[rule_format, of 1] P[rule_format, of 2] P[rule_format, of 3] iso
  have "image_id (rows ! 0) = ''A'' \<and> day_of_row (rows ! 0) = Inr 3
      \<and> image_id (rows ! 1) = ''B'' \<and> day_of_row (rows ! 1) = Inr 2
      \<and> image_id (rows ! 2) = ''C'' \<and> day_of_row (rows ! 2) = Inr 1
      \<and> date (rows ! 0) = ''2025-01-03''"
    by (simp add: numeral_2_eq_2)
  with R y m n d show ?thesis by auto
qed

text \<open>
  The claim as written fails for a list longer than the month: 29 ids listed for
  February 2025 raise \<^verbatim>\<open>ValueError\<close> (day 29 does not exist), and no record is produced.
\<close>

theorem assign_dates_29_in_february:
  "assign_dates ''202502''
     [''img29'', ''img28'', ''img27'', ''img26'', ''img25'', ''img24'',
      ''img23'', ''img22'', ''img21'', ''img20'', ''img19'', ''img18'',
      ''img17'', ''img16'', ''img15'', ''img14'', ''img13'', ''img12'',
      ''img11'', ''img10'', ''img09'', ''img08'', ''img07'', ''img06'',
      ''img05'', ''img04'', ''img03'', ''img02'', ''img01'']
   = Inl ValueError"
  by (simp add: assign_dates_def py_int_def is_digit_def digit_val_def date_isoformat_def
        days_in_month_def is_leap_def)

subsection \<open>C5: merging a re-indexed month\<close>

















subsection \<open>C4: writing the catalog\<close>

lemma write_csv_at:
  "write_csv fs csv_path rows csv_path = Some (fieldnames # map row_fields (sort_key date rows))"
  by (simp add: write_csv_def write_csv_ops_def run_fs_ops_def)

lemma write_csv_elsewhere: "p \<noteq> csv_path \<Longrightarrow> write_csv fs csv_path rows p = fs p"
  by (simp add: write_csv_def write_csv_ops_def run_fs_ops_def)

text \<open>
  C4, as the code has it. \<^verbatim>\<open>write_csv\<close> writes the header and then all rows sorted
  ascending by date, rows of equal date keeping their order, and it writes them to the
  catalog path itself: its first step truncates that file, no other path is written and
  nothing is renamed. After the first step the file is empty whatever it held before.
\<close>

theorem write_csv_sorted_in_place:
  "write_csv fs csv_path rows csv_path = Some (fieldnames # map row_fields (sort_key date rows))
   \<and> sorted (map date (sort_key date rows))
   \<and> length (sort_key date rows) = length rows \<and> set (sort_key date rows) = set rows
   \<and> (\<forall>d. filter (\<lambda>r. date r = d) (sort_key date rows) = filter (\<lambda>r. date r = d) rows)
   \<and> (\<forall>p. p \<noteq> csv_path \<longrightarrow> write_csv fs csv_path rows p = fs p)
   \<and> hd (write_csv_ops csv_path rows) = OpenTruncate csv_path
   \<and> run_fs_ops fs (take 1 (write_csv_ops csv_path rows)) csv_path = Some []"
proof -
  have 1: "\<forall>d. filter (\<lambda>r. date r = d) (sort_key date rows) = filter (\<lambda>r. date r = d) rows"
    by (simp add: filter_sort[symmetric] sort_key_stable)
  have 2: "hd (write_csv_ops csv_path rows) = OpenTruncate csv_path"
    "run_fs_ops fs (take 1 (write_csv_ops csv_path rows)) csv_path = Some []"
    by (simp_all add: write_csv_ops_def run_fs_ops_def)
  show ?thesis using write_csv_at write_csv_elsewhere 1 2 by simp
qed

theorem write_csv_sorted_in_place_witness:
  "''tmp.csv'' \<noteq> ''image_dates.csv''
   \<and> write_csv Map.empty ''image_dates.csv'' (map snd ex_new_catalog) ''tmp.csv'' = None
   \<and> write_csv Map.empty ''image_dates.csv'' (map snd ex_new_catalog) ''image_dates.csv''
        = Some [[''date'', ''yyyymm'', ''image_id'', ''filename''],
                [''2024-12-01'', ''202412'', ''Z'', ''202412_Z.jpg''],
                [''2025-01-01'', ''202501'', ''C'', ''202501_C.jpg''],
                [''2025-01-02'', ''202501'', ''B'', ''202501_B.jpg''],
                [''2025-01-03'', ''202501'', ''A'', ''202501_A.jpg'']]"
proof -
  note T = write_csv_sorted_in_place[of Map.empty "''image_dates.csv''" "map snd ex_new_catalog"]
  have n: "''tmp.csv'' \<noteq> ''image_dates.csv''" by simp
  have s: "sort_key date (map snd ex_new_catalog) =
     [\<lparr>date = ''2024-12-01'', yyyymm = ''202412'', image_id = ''Z'', filename = ''202412_Z.jpg''\<rparr>,
      \<lparr>date = ''2025-01-01'', yyyymm = ''202501'', image_id = ''C'', filename = ''202501_C.jpg''\<rparr>,
      \<lparr>date = ''2025-01-02'', yyyymm = ''202501'', image_id = ''B'', filename = ''202501_B.jpg''\<rparr>,
      \<lparr>date = ''2025-01-03'', yyyymm = ''202501'', image_id = ''A'', filename = ''202501_A.jpg''\<rparr>]"
    by (simp add: ex_new_catalog_def)
  from T n have "write_csv Map.empty ''image_dates.csv'' (map snd ex_new_catalog) ''tmp.csv'' = None"
    by simp
  moreover from T have "write_csv Map.empty ''image_dates.csv'' (map snd ex_new_catalog) ''image_dates.csv''
      = Some (fieldnames # map row_fields (sort_key date (map snd ex_new_catalog)))"
    by simp
  ultimately show ?thesis unfolding s using n by (simp add: fieldnames_def row_fields_def)
qed

text \<open>
  The claim as written fails: \<^verbatim>\<open>write_csv\<close> has exactly three steps, all on the catalog
  path, and a run that stops after the first one leaves a catalog that held a record
  empty.
\<close>

theorem write_csv_interrupted:
  "write_csv_ops ''image_dates.csv''
     [\<lparr>date = ''2025-01-01'', yyyymm = ''202501'', image_id = ''A'', filename = ''202501_A.jpg''\<rparr>]
   = [OpenTruncate ''image_dates.csv'',
      Write ''image_dates.csv'' [[''date'', ''yyyymm'', ''image_id'', ''filename'']],
      Write ''image_dates.csv'' [[''2025-01-01'', ''202501'', ''A'', ''202501_A.jpg'']]]
   \<and> run_fs_ops
         [''image_dates.csv'' \<mapsto> [[''date'', ''yyyymm'', ''image_id'', ''filename''],
                                   [''2024-12-31'', ''202412'', ''Z'', ''202412_Z.jpg'']]]
         (take 1 (write_csv_ops ''image_dates.csv''
            [\<lparr>date = ''2025-01-01'', yyyymm = ''202501'', image_id = ''A'',
               filename = ''202501_A.jpg''\<rparr>]))
         ''image_dates.csv''
       = Some []"
  by (simp add: write_csv_ops_def run_fs_ops_def fieldnames_def row_fields_def)

subsection \<open>What the download steps change\<close>

lemma try_direct_cdn_fields:
  assumes "try_direct_cdn net ym img dest s = (ok, s')"
  shows "mem_done_months s' = mem_done_months s" "mem_done_images s' = mem_done_images s"
    "mem_failed_images s' = mem_failed_images s" "n_dl s' = n_dl s" "n_skip s' = n_skip s"
    "n_fail s' = n_fail s" "state_json s' = state_json s" "printed s' = printed s"
    "requests s' = requests s @ [GetBody (CDN_BASE @ ''/'' @ ym @ ''/'' @ img @ ''.jpg'')]"
    "\<And>f. f \<noteq> dest \<Longrightarrow> out_files s' f = out_files s f"
    "\<not> ok \<Longrightarrow> out_files s' = out_files s"
    "ok \<Longrightarrow> \<exists>content. out_files s' dest = Some content \<and> 50000 \<le> length content"
  using assms
  by (auto simp: try_direct_cdn_def Let_def split: option.splits if_splits)

lemma download_url_fields:
  assumes "download_url net url dest s = (ok, s')"
  shows "mem_done_months s' = mem_done_months s" "mem_done_images s' = mem_done_images s"
    "mem_failed_images s' = mem_failed_images s" "n_dl s' = n_dl s" "n_skip s' = n_skip s"
    "n_fail s' = n_fail s" "state_json s' = state_json s" "printed s' = printed s"
    "requests s' = requests s @ [GetBody url]"
    "\<And>f. f \<noteq> dest \<Longrightarrow> out_files s' f = out_files s f"
    "\<not> ok \<Longrightarrow> out_files s' = out_files s"
    "ok \<Longrightarrow> \<exists>content. out_files s' dest = Some content \<and> 50000 \<le> length content"
  using assms
  by (auto simp: download_url_def Let_def split: option.splits if_splits)

lemma get_4k_url_fields:
  assumes "get_4k_url_from_detail net img s = (u, s')"
  shows "mem_done_months s' = mem_done_months s" "mem_done_images s' = mem_done_images s"
    "mem_failed_images s' = mem_failed_images s" "n_dl s' = n_dl s" "n_skip s' = n_skip s"
    "n_fail s' = n_fail s" "state_json s' = state_json s" "printed s' = printed s"
    "requests s' = requests s @ [GetPage (BASE_URL @ ''/detail/us/'' @ img)]"
    "out_files s' = out_files s"
  using assms
  by (auto simp: get_4k_url_from_detail_def Let_def split: option.splits)


text \<open>The five ways through lines 263 to 282.\<close>

lemma fetch_image_cases:
  assumes "fetch_image args net ym img dest s = (ok, s')"
  obtains
    (cdn) s1 where "cdn_first args \<or> direct_only args"
      "try_direct_cdn net ym img dest s = (ok, s1)" "ok \<or> direct_only args" "s' = s1"
  | (cdn_then_link) s1 u t1 where "cdn_first args" "\<not> direct_only args"
      "try_direct_cdn net ym img dest s = (False, s1)"
      "get_4k_url_from_detail net img s1 = (u, t1)" "truthy u"
      "download_url net (the u) dest t1 = (ok, s')"
  | (cdn_no_link) s1 u where "cdn_first args" "\<not> direct_only args"
      "try_direct_cdn net ym img dest s = (False, s1)"
      "get_4k_url_from_detail net img s1 = (u, s')" "\<not> truthy u" "\<not> ok"
  | (link) u t1 where "\<not> cdn_first args" "\<not> direct_only args"
      "get_4k_url_from_detail net img s = (u, t1)" "truthy u"
      "download_url net (the u) dest t1 = (ok, s')"
  | (no_link) u t1 where "\<not> cdn_first args" "\<not> direct_only args"
      "get_4k_url_from_detail net img s = (u, t1)" "\<not> truthy u"
      "try_direct_cdn net ym img dest t1 = (ok, s')"
proof -
  obtain ok1 s1 where c: "try_direct_cdn net ym img dest s = (ok1, s1)" by force
  obtain u1 t1 where g1: "get_4k_url_from_detail net img s1 = (u1, t1)" by force
  obtain u2 t2 where g2: "get_4k_url_from_detail net img s = (u2, t2)" by force
  show thesis
  proof (cases "cdn_first args \<or> direct_only args")
    case True
    show thesis
    proof (cases "\<not> ok1 \<and> \<not> direct_only args")
      case False
      with True assms c have "ok = ok1" "s' = s1" by (auto simp: fetch_image_def)
      with True False c show thesis by (intro cdn[of s1]) auto
    next
      case n: True
      with True have cf: "cdn_first args" "\<not> direct_only args" "\<not> ok1" by auto
      show thesis
      proof (cases "truthy u1")
        case True
        with cf assms c g1 have "download_url net (the u1) dest t1 = (ok, s')"
          by (simp add: fetch_image_def)
        with cf c g1 True show thesis by (intro cdn_then_link[of s1 u1 t1]) auto
      next
        case False
        with cf assms c g1 have "ok = ok1" "s' = t1" by (auto simp: fetch_image_def)
        with cf c g1 False show thesis by (intro cdn_no_link[of s1 u1]) auto
      qed
    qed
  next
    case False
    then have nf: "\<not> cdn_first args" "\<not> direct_only args" by auto
    show thesis
    proof (cases "truthy u2")
      case True
      with nf assms g2 have "download_url net (the u2) dest t2 = (ok, s')"
        by (simp add: fetch_image_def)
      with nf g2 True show thesis by (intro link[of u2 t2]) auto
    next
      case False
      with nf assms g2 have "try_direct_cdn net ym img dest t2 = (ok, s')"
        by (simp add: fetch_image_def)
      with nf g2 False show thesis by (intro no_link[of u2 t2]) auto
    qed
  qed
qed

lemma fetch_image_fields:
  assumes "fetch_image args net ym img dest s = (ok, s')"
  shows "mem_done_months s' = mem_done_months s \<and> mem_done_images s' = mem_done_images s
    \<and> mem_failed_images s' = mem_failed_images s \<and> n_dl s' = n_dl s \<and> n_skip s' = n_skip s
    \<and> n_fail s' = n_fail s \<and> state_json s' = state_json s \<and> printed s' = printed s
    \<and> (\<forall>f. f \<noteq> dest \<longrightarrow> out_files s' f = out_files s f)
    \<and> (\<not> ok \<longrightarrow> out_files s' = out_files s)
    \<and> (ok \<longrightarrow> (\<exists>content. out_files s' dest = Some content \<and> 50000 \<le> length content))
    \<and> (\<exists>new. requests s' = requests s @ new \<and>
          set new \<subseteq> range GetBody \<union> {GetPage (BASE_URL @ ''/detail/us/'' @ img)})"
  using assms
proof (cases rule: fetch_image_cases)
  case (cdn s1)
  note C = try_direct_cdn_fields[OF cdn(2)]
  show ?thesis unfolding cdn(4) using C by auto
next
  case (cdn_then_link s1 u t1)
  note C = try_direct_cdn_fields[OF cdn_then_link(3)]
  note G = get_4k_url_fields[OF cdn_then_link(4)]
  note D = download_url_fields[OF cdn_then_link(6)]
  show ?thesis using C G D by auto
next
  case (cdn_no_link s1 u)
  note C = try_direct_cdn_fields[OF cdn_no_link(3)]
  note G = get_4k_url_fields[OF cdn_no_link(4)]
  show ?thesis using C G cdn_no_link(6) by auto
next
  case (link u t1)
  note G = get_4k_url_fields[OF link(3)]
  note D = download_url_fields[OF link(5)]
  show ?thesis using G D by auto
next
  case (no_link u t1)
  note G = get_4k_url_fields[OF no_link(3)]
  note C = try_direct_cdn_fields[OF no_link(5)]
  show ?thesis using G C by auto
qed


subsection \<open>C3: fallback and failure of one item\<close>

lemma process_image_attempt:
  assumes "\<not> on_disk s (ym @ ''_'' @ img @ ''.jpg'')" and "image_key ym img \<notin> mem_done_images s"
    and "fetch_image args net ym img (ym @ ''_'' @ img @ ''.jpg'') s = (ok, s1)"
  shows "process_image args net ym s img =
     (if ok then
        s1\<lparr>printed := printed s1 @ [SavedKB (image_key ym img) (kb_of s1 (ym @ ''_'' @ img @ ''.jpg''))],
           n_dl := n_dl s1 + 1,
           mem_done_images := insert (image_key ym img) (mem_done_images s1)\<rparr>
      else
        s1\<lparr>printed := printed s1 @ [FAILED (image_key ym img)], n_fail := n_fail s1 + 1,
           mem_failed_images := insert (image_key ym img) (mem_failed_images s1),
           out_files := (out_files s1)(ym @ ''_'' @ img @ ''.jpg'' := None)\<rparr>)"
  using assms by (simp add: process_image_def Let_def)




lemma ex_B_cdn:
  "try_direct_cdn ex_web ''202501'' ''B'' ''202501_B.jpg'' s =
     (False, s\<lparr>requests := requests s @ [GetBody ''https://img.nanxiongnandi.com/202501/B.jpg'']\<rparr>)"
  by (simp add: try_direct_cdn_def ex_web_def CDN_BASE_def Let_def)

lemma ex_B_detail:
  "get_4k_url_from_detail ex_web ''B'' s =
     (None, s\<lparr>requests := requests s @ [GetPage ''https://bingwallpaper.anerg.com/detail/us/B'']\<rparr>)"
  by (simp add: get_4k_url_from_detail_def ex_web_def BASE_URL_def Let_def)

lemma ex_A_detail:
  "get_4k_url_from_detail ex_web ''A'' s =
     (Some ''https://proxy.example/w:3840/A.jpg'',
      s\<lparr>requests := requests s @ [GetPage ''https://bingwallpaper.anerg.com/detail/us/A'']\<rparr>)"
  by (simp add: get_4k_url_from_detail_def ex_web_def BASE_URL_def Let_def)

lemma ex_A_link:
  "download_url ex_web ''https://proxy.example/w:3840/A.jpg'' ''202501_A.jpg'' s =
     (False, s\<lparr>requests := requests s @ [GetBody ''https://proxy.example/w:3840/A.jpg'']\<rparr>)"
  by (simp add: download_url_def ex_web_def Let_def)






subsection \<open>What one item and one month change\<close>

lemma process_image_fields:
  "mem_done_months (process_image args net ym s img) = mem_done_months s
   \<and> state_json (process_image args net ym s img) = state_json s
   \<and> mem_done_images s \<subseteq> mem_done_images (process_image args net ym s img)
   \<and> mem_failed_images s \<subseteq> mem_failed_images (process_image args net ym s img)
   \<and> (finite (mem_done_images s) \<longrightarrow> finite (mem_done_images (process_image args net ym s img)))
   \<and> (finite (mem_failed_images s) \<longrightarrow> finite (mem_failed_images (process_image args net ym s img)))
   \<and> (n_fail s = length (filter is_failure (printed s)) \<longrightarrow>
        n_fail (process_image args net ym s img)
          = length (filter is_failure (printed (process_image args net ym s img))))"
proof -
  let ?dest = "ym @ ''_'' @ img @ ''.jpg''"
  consider (disk) "on_disk s ?dest"
    | (state) "\<not> on_disk s ?dest" "image_key ym img \<in> mem_done_images s"
    | (attempt) "\<not> on_disk s ?dest" "image_key ym img \<notin> mem_done_images s"
    by blast
  then show ?thesis
  proof cases
    case disk
    then have "process_image args net ym s img =
        s\<lparr>printed := printed s @ [SkipOnDisk (image_key ym img)], n_skip := n_skip s + 1,
          mem_done_images := insert (image_key ym img) (mem_done_images s)\<rparr>"
      by (simp add: process_image_def Let_def)
    then show ?thesis by auto
  next
    case state
    then have "process_image args net ym s img =
        s\<lparr>printed := printed s @ [SkipState (image_key ym img)], n_skip := n_skip s + 1\<rparr>"
      by (simp add: process_image_def Let_def)
    then show ?thesis by auto
  next
    case attempt
    obtain ok s1 where F: "fetch_image args net ym img ?dest s = (ok, s1)" by force
    note FF = fetch_image_fields[OF F]
    show ?thesis unfolding process_image_attempt[OF attempt F] using FF by auto
  qed
qed

lemma process_images_fields:
  "mem_done_months (process_images args net ym imgs s) = mem_done_months s
   \<and> state_json (process_images args net ym imgs s) = state_json s
   \<and> mem_done_images s \<subseteq> mem_done_images (process_images args net ym imgs s)
   \<and> mem_failed_images s \<subseteq> mem_failed_images (process_images args net ym imgs s)
   \<and> (finite (mem_done_images s) \<longrightarrow> finite (mem_done_images (process_images args net ym imgs s)))
   \<and> (finite (mem_failed_images s) \<longrightarrow> finite (mem_failed_images (process_images args net ym imgs s)))
   \<and> (n_fail s = length (filter is_failure (printed s)) \<longrightarrow>
        n_fail (process_images args net ym imgs s)
          = length (filter is_failure (printed (process_images args net ym imgs s))))"
proof (induction imgs arbitrary: s)
  case Nil show ?case by simp
next
  case (Cons img rest)
  note P = process_image_fields[of args net ym s img]
  note I = Cons.IH[of "process_image args net ym s img"]
  show ?case using P I by auto
qed


lemma process_image_failed:
  "\<forall>key. FAILED key \<in> set (printed (process_image args net ym s img)) \<longrightarrow>
         FAILED key \<in> set (printed s) \<or> key \<in> mem_failed_images (process_image args net ym s img)"
proof -
  let ?dest = "ym @ ''_'' @ img @ ''.jpg''"
  consider (disk) "on_disk s ?dest"
    | (state) "\<not> on_disk s ?dest" "image_key ym img \<in> mem_done_images s"
    | (attempt) "\<not> on_disk s ?dest" "image_key ym img \<notin> mem_done_images s"
    by blast
  then show ?thesis
  proof cases
    case disk then show ?thesis by (simp add: process_image_def Let_def)
  next
    case state then show ?thesis by (simp add: process_image_def Let_def)
  next
    case attempt
    obtain ok s1 where F: "fetch_image args net ym img ?dest s = (ok, s1)" by force
    note FF = fetch_image_fields[OF F]
    show ?thesis unfolding process_image_attempt[OF attempt F] using FF by auto
  qed
qed

lemma process_images_failed:
  "\<forall>key. FAILED key \<in> set (printed (process_images args net ym imgs s)) \<longrightarrow>
         FAILED key \<in> set (printed s) \<or> key \<in> mem_failed_images (process_images args net ym imgs s)"
proof (induction imgs arbitrary: s)
  case Nil show ?case by simp
next
  case (Cons img rest)
  note A = process_image_failed[of args net ym s img]
  note B = Cons.IH[of "process_image args net ym s img"]
  have C: "mem_failed_images (process_image args net ym s img)
        \<subseteq> mem_failed_images (process_images args net ym rest (process_image args net ym s img))"
    using process_images_fields by blast
  show ?case unfolding process_images.simps using A B C by blast
qed

lemma process_month_failed:
  "\<forall>key. FAILED key \<in> set (printed (process_month args net s ym)) \<longrightarrow>
         FAILED key \<in> set (printed s) \<or> key \<in> mem_failed_images (process_month args net s ym)"
proof -
  let ?s1 = "s\<lparr>requests := requests s @ [GetPage (BASE_URL @ ''/archive/us/'' @ ym)]\<rparr>"
  let ?s2 = "?s1\<lparr>printed := printed ?s1 @ [ImagesListed ym (length (get_image_ids net ym))]\<rparr>"
  note P = process_images_failed[of args net ym "get_image_ids net ym" ?s2]
  show ?thesis using P by (auto simp: process_month_def Let_def save_state_def)
qed

lemma process_month_skip:
  "ym \<in> mem_done_months s \<Longrightarrow>
     process_month args net s ym = s\<lparr>printed := printed s @ [AlreadyComplete ym]\<rparr>"
  by (simp add: process_month_def)

lemma process_month_saved:
  assumes "ym \<notin> mem_done_months s"
  shows "state_json (process_month args net s ym) =
     Some \<lparr>done_months = sorted_list_of_set (mem_done_months (process_month args net s ym)),
           done_images = sorted_list_of_set (mem_done_images (process_month args net s ym)),
           failed_images = sorted_list_of_set (mem_failed_images (process_month args net s ym))\<rparr>"
  using assms by (simp add: process_month_def Let_def save_state_def)

lemma process_month_fields:
  "mem_done_months (process_month args net s ym) = insert ym (mem_done_months s)
   \<and> mem_done_images s \<subseteq> mem_done_images (process_month args net s ym)
   \<and> mem_failed_images s \<subseteq> mem_failed_images (process_month args net s ym)
   \<and> (finite (mem_done_images s) \<longrightarrow> finite (mem_done_images (process_month args net s ym)))
   \<and> (finite (mem_failed_images s) \<longrightarrow> finite (mem_failed_images (process_month args net s ym)))
   \<and> (n_fail s = length (filter is_failure (printed s)) \<longrightarrow>
        n_fail (process_month args net s ym)
          = length (filter is_failure (printed (process_month args net s ym))))"
proof (cases "ym \<in> mem_done_months s")
  case True
  then show ?thesis unfolding process_month_skip[OF True] by auto
next
  case False
  let ?s1 = "s\<lparr>requests := requests s @ [GetPage (BASE_URL @ ''/archive/us/'' @ ym)]\<rparr>"
  let ?s2 = "?s1\<lparr>printed := printed ?s1 @ [ImagesListed ym (length (get_image_ids net ym))]\<rparr>"
  note P = process_images_fields[of args net ym "get_image_ids net ym" ?s2]
  show ?thesis
  proof (cases "get_image_ids net ym = []")
    case True
    with False show ?thesis by (simp add: process_month_def Let_def save_state_def)
  next
    case ne: False
    have e: "process_month args net s ym =
        save_state ((process_images args net ym (get_image_ids net ym) ?s2)
           \<lparr>mem_done_months := insert ym
               (mem_done_months (process_images args net ym (get_image_ids net ym) ?s2))\<rparr>)"
      using False ne by (simp add: process_month_def Let_def)
    show ?thesis unfolding e using P by (simp add: save_state_def)
  qed
qed

lemma process_months_fields:
  "mem_done_months (process_months args net ms s) = mem_done_months s \<union> set ms
   \<and> mem_done_images s \<subseteq> mem_done_images (process_months args net ms s)
   \<and> mem_failed_images s \<subseteq> mem_failed_images (process_months args net ms s)
   \<and> (finite (mem_done_images s) \<longrightarrow> finite (mem_done_images (process_months args net ms s)))
   \<and> (finite (mem_failed_images s) \<longrightarrow> finite (mem_failed_images (process_months args net ms s)))
   \<and> (n_fail s = length (filter is_failure (printed s)) \<longrightarrow>
        n_fail (process_months args net ms s)
          = length (filter is_failure (printed (process_months args net ms s))))"
proof (induction ms arbitrary: s)
  case Nil show ?case by simp
next
  case (Cons ym rest)
  note P = process_month_fields[of args net s ym]
  note I = Cons.IH[of "process_month args net s ym"]
  show ?case using P I by auto
qed

lemma scrape_main_InrD:
  assumes "scrape_main args net files stored = Inr (s, rc)"
  obtains months where "generate_months (opt_start args) (opt_end args) = Inr months"
    and "s = process_months args net (if reverse args then rev months else months)
               (initial_scraper args files stored)"
    and "rc = (if n_fail s = 0 then 0 else 1)"
  using assms by (auto simp: scrape_main_def Let_def split: sum.splits)

lemma initial_scraper_counts:
  "n_fail (initial_scraper args files stored)
     = length (filter is_failure (printed (initial_scraper args files stored)))"
  by (simp add: initial_scraper_def Let_def)

lemma is_failure_iff: "is_failure m \<longleftrightarrow> (\<exists>key. m = FAILED key)"
  by (cases m) auto


subsection \<open>The download scenario evaluated\<close>

lemma gm_202501: "generate_months ''202501'' ''202501'' = Inr [''202501'']"
  by code_simp

lemma ex_web_listing: "get_image_ids ex_web ''202501'' = [''A'', ''B'']"
  by (simp add: get_image_ids_def ex_web_def BASE_URL_def rsplit_last_def)

lemma ex_initial: "initial_scraper ex_detail_first ex_files None = ex_start"
  by (simp add: initial_scraper_def ex_detail_first_def load_state_def empty_state_def ex_start_def)

lemma ex_A_step:
  assumes "\<not> on_disk s ''202501_A.jpg''" and "''202501/A'' \<notin> mem_done_images s"
  shows "process_image ex_detail_first ex_web ''202501'' s ''A'' =
     s\<lparr>requests := requests s @ [GetPage ''https://bingwallpaper.anerg.com/detail/us/A'',
                                  GetBody ''https://proxy.example/w:3840/A.jpg''],
       printed := printed s @ [FAILED ''202501/A''], n_fail := n_fail s + 1,
       mem_failed_images := insert ''202501/A'' (mem_failed_images s),
       out_files := (out_files s)(''202501_A.jpg'' := None)\<rparr>"
  using assms
  by (simp add: process_image_def fetch_image_def Let_def image_key_def ex_A_detail ex_A_link
        truthy_def ex_detail_first_def)

lemma ex_B_step:
  assumes "\<not> on_disk s ''202501_B.jpg''" and "''202501/B'' \<notin> mem_done_images s"
  shows "process_image ex_detail_first ex_web ''202501'' s ''B'' =
     s\<lparr>requests := requests s @ [GetPage ''https://bingwallpaper.anerg.com/detail/us/B'',
                                  GetBody ''https://img.nanxiongnandi.com/202501/B.jpg''],
       printed := printed s @ [FAILED ''202501/B''], n_fail := n_fail s + 1,
       mem_failed_images := insert ''202501/B'' (mem_failed_images s),
       out_files := (out_files s)(''202501_B.jpg'' := None)\<rparr>"
  using assms
  by (simp add: process_image_def fetch_image_def Let_def image_key_def ex_B_detail ex_B_cdn
        truthy_def ex_detail_first_def)

lemma ex_month: "process_month ex_detail_first ex_web ex_start ''202501'' = ex_final"
proof -
  let ?L2 = "\<lparr>mem_done_months = {}, mem_done_images = {}, mem_failed_images = {},
      n_dl = 0, n_skip = 0, n_fail = 0, out_files = ex_files, state_json = None,
      requests = [GetPage ''https://bingwallpaper.anerg.com/archive/us/202501''],
      printed = [ImagesListed ''202501'' 2]\<rparr>"
  let ?L3 = "\<lparr>mem_done_months = {}, mem_done_images = {}, mem_failed_images = {''202501/A''},
      n_dl = 0, n_skip = 0, n_fail = 1, out_files = ex_files, state_json = None,
      requests = [GetPage ''https://bingwallpaper.anerg.com/archive/us/202501'',
                  GetPage ''https://bingwallpaper.anerg.com/detail/us/A'',
                  GetBody ''https://proxy.example/w:3840/A.jpg''],
      printed = [ImagesListed ''202501'' 2, FAILED ''202501/A'']\<rparr>"
  let ?L4 = "\<lparr>mem_done_months = {}, mem_done_images = {},
      mem_failed_images = {''202501/A'', ''202501/B''},
      n_dl = 0, n_skip = 0, n_fail = 2, out_files = Map.empty, state_json = None,
      requests = [GetPage ''https://bingwallpaper.anerg.com/archive/us/202501'',
                  GetPage ''https://bingwallpaper.anerg.com/detail/us/A'',
                  GetBody ''https://proxy.example/w:3840/A.jpg'',
                  GetPage ''https://bingwallpaper.anerg.com/detail/us/B'',
                  GetBody ''https://img.nanxiongnandi.com/202501/B.jpg''],
      printed = [ImagesListed ''202501'' 2, FAILED ''202501/A'', FAILED ''202501/B'']\<rparr>"
  have fa: "ex_files(''202501_A.jpg'' := None) = ex_files"
    by (rule ext) (simp add: ex_files_def)
  have fb: "ex_files(''202501_B.jpg'' := None) = Map.empty"
    by (rule ext) (simp add: ex_files_def)
  have a: "process_image ex_detail_first ex_web ''202501'' ?L2 ''A'' = ?L3"
  proof -
    have "\<not> on_disk ?L2 ''202501_A.jpg''" "''202501/A'' \<notin> mem_done_images ?L2"
      by (simp_all add: on_disk_def ex_files_def)
    from ex_A_step[OF this] show ?thesis by (simp add: fa)
  qed
  have b: "process_image ex_detail_first ex_web ''202501'' ?L3 ''B'' = ?L4"
  proof -
    have "\<not> on_disk ?L3 ''202501_B.jpg''" "''202501/B'' \<notin> mem_done_images ?L3"
      by (simp_all add: on_disk_def ex_files_def)
    from ex_B_step[OF this] show ?thesis by (simp add: fb insert_commute)
  qed
  have pi: "process_images ex_detail_first ex_web ''202501'' [''A'', ''B''] ?L2 = ?L4"
    by (simp only: process_images.simps a b)
  have pm: "process_month ex_detail_first ex_web ex_start ''202501'' =
      save_state ((process_images ex_detail_first ex_web ''202501'' [''A'', ''B''] ?L2)
        \<lparr>mem_done_months := insert ''202501''
           (mem_done_months (process_images ex_detail_first ex_web ''202501'' [''A'', ''B''] ?L2))\<rparr>)"
    by (simp add: process_month_def ex_web_listing Let_def BASE_URL_def ex_start_def
          del: process_images.simps flip: numeral_2_eq_2)
  have s: "sorted_list_of_set {''202501/A'', ''202501/B''} = [''202501/A'', ''202501/B'']"
    "sorted_list_of_set {''202501''} = [''202501'']"
    by simp_all
  show ?thesis unfolding pm pi by (simp add: save_state_def ex_final_def s)
qed

lemma ex_scrape_run: "scrape_main ex_detail_first ex_web ex_files None = Inr (ex_final, 1)"
proof -
  have g: "generate_months (opt_start ex_detail_first) (opt_end ex_detail_first) = Inr [''202501'']"
    using gm_202501 by (simp add: ex_detail_first_def)
  have r: "\<not> reverse ex_detail_first" by (simp add: ex_detail_first_def)
  show ?thesis
    unfolding scrape_main_def g using r by (simp add: ex_initial ex_month ex_final_def)
qed


subsection \<open>C8: exit codes\<close>

text \<open>
  C8. \<^verbatim>\<open>prepare_sync\<close> returns 1 exactly when some catalog entry of the window is missing
  from the disk and 0 exactly when none is. \<^verbatim>\<open>scrape_bing\<close> returns 0 exactly when its
  failure count is zero and 1 exactly when it is at least one, and the failure count is
  the number of downloads reported as failed during the run.
\<close>

theorem exit_codes:
  assumes W: "sync_window now args = Inr (start, end)"
    and G: "generate_months start end = Inr months"
    and M: "prepare_sync_main now args csv dir stored = Inr (written, rc)"
    and S: "scrape_main sargs net files sstored = Inr (s, src)"
  shows "(rc = 1 \<longleftrightarrow> missing_of dir (load_catalog csv (set months)) \<noteq> [])
       \<and> (rc = 0 \<longleftrightarrow> missing_of dir (load_catalog csv (set months)) = [])
       \<and> (missing_of dir (load_catalog csv (set months)) \<noteq> [] \<longleftrightarrow>
            (\<exists>r \<in> set (load_catalog csv (set months)). \<not> image_is_present dir (filename r)))
       \<and> (src = 0 \<longleftrightarrow> n_fail s = 0)
       \<and> (src = 1 \<longleftrightarrow> 1 \<le> n_fail s)
       \<and> n_fail s = length (filter is_failure (printed s))
       \<and> (src = 1 \<longleftrightarrow> (\<exists>key. FAILED key \<in> set (printed s)))
       \<and> (src = 0 \<longleftrightarrow> (\<forall>key. FAILED key \<notin> set (printed s)))"
proof -
  from M have R: "reconcile start end (strftime_Ym now) csv dir stored = Inr (written, rc)"
    by (simp add: main_reconcile[OF W])
  have rc: "rc = (if missing_of dir (load_catalog csv (set months)) \<noteq> [] then 1 else 0)"
    using R unfolding reconcile_written[OF G] missing_nonempty by simp
  from S obtain ms where s: "s = process_months sargs net (if reverse sargs then rev ms else ms)
               (initial_scraper sargs files sstored)"
    and src: "src = (if n_fail s = 0 then 0 else 1)"
    by (rule scrape_main_InrD)
  have n: "n_fail s = length (filter is_failure (printed s))"
    unfolding s using process_months_fields initial_scraper_counts by blast
  have f: "n_fail s = 0 \<longleftrightarrow> (\<forall>key. FAILED key \<notin> set (printed s))"
    unfolding n by (auto simp: filter_empty_conv is_failure_iff)
  have s0: "src = 0 \<longleftrightarrow> n_fail s = 0" and s1: "src = 1 \<longleftrightarrow> 1 \<le> n_fail s"
    unfolding src by auto
  have r1: "rc = 1 \<longleftrightarrow> missing_of dir (load_catalog csv (set months)) \<noteq> []"
    and r0: "rc = 0 \<longleftrightarrow> missing_of dir (load_catalog csv (set months)) = []"
    unfolding rc by auto
  have f1: "src = 1 \<longleftrightarrow> (\<exists>key. FAILED key \<in> set (printed s))"
    using s0 s1 f by auto
  have f0: "src = 0 \<longleftrightarrow> (\<forall>key. FAILED key \<notin> set (printed s))"
    using s0 f by simp
  from r1 r0 missing_nonempty[of dir "load_catalog csv (set months)"] s0 s1 n f1 f0
  show ?thesis by (intro conjI)
qed

theorem exit_codes_witness:
  "sync_window ex_now ex_args = Inr (''202501'', ''202502'')
   \<and> generate_months ''202501'' ''202502'' = Inr [''202501'', ''202502'']
   \<and> prepare_sync_main ex_now ex_args (Some ex_catalog) ex_dir (Some ex_stored) = Inr (ex_written, 1)
   \<and> scrape_main ex_detail_first ex_web ex_files None = Inr (ex_final, 1)
   \<and> missing_of ex_dir (load_catalog (Some ex_catalog) (set [''202501'', ''202502''])) \<noteq> []
   \<and> 1 \<le> n_fail ex_final
   \<and> n_fail ex_final = length (filter is_failure (printed ex_final))
   \<and> (\<exists>key. FAILED key \<in> set (printed ex_final))"
proof -
  note T = exit_codes[OF ex_window gm_202501_202502 ex_main ex_scrape_run]
  from T have "missing_of ex_dir (load_catalog (Some ex_catalog) (set [''202501'', ''202502''])) \<noteq> []"
    "1 \<le> n_fail ex_final" "n_fail ex_final = length (filter is_failure (printed ex_final))"
    "\<exists>key. FAILED key \<in> set (printed ex_final)"
    by simp_all
  with ex_window gm_202501_202502 ex_main ex_scrape_run show ?thesis by simp
qed

subsection \<open>C10: a month is marked done whatever its items did\<close>

lemma initial_scraper_loaded:
  assumes "\<not> reset args"
  shows "mem_done_months (initial_scraper args files (Some st)) = set (done_months st)"
    "mem_done_images (initial_scraper args files (Some st)) = set (done_images st)"
    "mem_failed_images (initial_scraper args files (Some st)) = set (failed_images st)"
  using assms by (simp_all add: initial_scraper_def load_state_def Let_def)

lemma month_step_done:
  assumes N: "ym \<notin> mem_done_months s" and L: "get_image_ids net ym \<noteq> []"
    and F: "finite (mem_done_months s)" "finite (mem_done_images s)" "finite (mem_failed_images s)"
  shows "ym \<in> mem_done_months (process_month args net s ym)
       \<and> (\<exists>st. state_json (process_month args net s ym) = Some st
             \<and> set (done_months st) = mem_done_months (process_month args net s ym)
             \<and> set (done_images st) = mem_done_images (process_month args net s ym)
             \<and> set (failed_images st) = mem_failed_images (process_month args net s ym)
             \<and> ym \<in> set (done_months st))
       \<and> mem_failed_images s \<subseteq> mem_failed_images (process_month args net s ym)
       \<and> (\<forall>key. FAILED key \<in> set (printed (process_month args net s ym)) \<longrightarrow>
             FAILED key \<in> set (printed s) \<or> key \<in> mem_failed_images (process_month args net s ym))
       \<and> (\<forall>args2 net2 files2 ms.
             \<not> reset args2 \<longrightarrow>
             ym \<in> mem_done_months (initial_scraper args2 files2 (state_json (process_month args net s ym)))
             \<and> mem_failed_images (initial_scraper args2 files2 (state_json (process_month args net s ym)))
                 = mem_failed_images (process_month args net s ym)
             \<and> process_month args2 net2
                   (process_months args2 net2 ms
                      (initial_scraper args2 files2 (state_json (process_month args net s ym)))) ym
                 = (process_months args2 net2 ms
                      (initial_scraper args2 files2 (state_json (process_month args net s ym))))
                   \<lparr>printed := printed (process_months args2 net2 ms
                      (initial_scraper args2 files2 (state_json (process_month args net s ym))))
                      @ [AlreadyComplete ym]\<rparr>
             \<and> mem_failed_images (process_month args net s ym)
                 \<subseteq> mem_failed_images (process_months args2 net2 ms
                      (initial_scraper args2 files2 (state_json (process_month args net s ym)))))"
proof -
  let ?s' = "process_month args net s ym"
  let ?st = "\<lparr>done_months = sorted_list_of_set (mem_done_months ?s'),
              done_images = sorted_list_of_set (mem_done_images ?s'),
              failed_images = sorted_list_of_set (mem_failed_images ?s')\<rparr>"
  note P = process_month_fields[of args net s ym]
  have 1: "ym \<in> mem_done_months ?s'" using P by simp
  have fin: "finite (mem_done_months ?s')" "finite (mem_done_images ?s')"
    "finite (mem_failed_images ?s')"
    using P F by simp_all
  have J: "state_json ?s' = Some ?st" by (rule process_month_saved[OF N])
  have 2: "\<exists>st. state_json ?s' = Some st
             \<and> set (done_months st) = mem_done_months ?s'
             \<and> set (done_images st) = mem_done_images ?s'
             \<and> set (failed_images st) = mem_failed_images ?s'
             \<and> ym \<in> set (done_months st)"
    using J fin 1 by (intro exI[of _ ?st]) simp
  have 3: "mem_failed_images s \<subseteq> mem_failed_images ?s'" using P by simp
  have 4: "\<forall>key. FAILED key \<in> set (printed ?s') \<longrightarrow>
             FAILED key \<in> set (printed s) \<or> key \<in> mem_failed_images ?s'"
    by (rule process_month_failed)
  have 5: "ym \<in> mem_done_months (initial_scraper args2 files2 (state_json ?s'))
       \<and> mem_failed_images (initial_scraper args2 files2 (state_json ?s')) = mem_failed_images ?s'
       \<and> process_month args2 net2 (process_months args2 net2 ms (initial_scraper args2 files2 (state_json ?s'))) ym
           = (process_months args2 net2 ms (initial_scraper args2 files2 (state_json ?s')))
               \<lparr>printed := printed (process_months args2 net2 ms (initial_scraper args2 files2 (state_json ?s')))
                    @ [AlreadyComplete ym]\<rparr>
       \<and> mem_failed_images ?s'
           \<subseteq> mem_failed_images (process_months args2 net2 ms (initial_scraper args2 files2 (state_json ?s')))"
    if nr: "\<not> reset args2" for args2 net2 files2 ms
  proof -
    let ?s0 = "initial_scraper args2 files2 (state_json ?s')"
    have a: "mem_done_months ?s0 = mem_done_months ?s'" "mem_failed_images ?s0 = mem_failed_images ?s'"
      unfolding J using initial_scraper_loaded[OF nr, of files2 ?st] fin by simp_all
    note Q = process_months_fields[of args2 net2 ms ?s0]
    have "ym \<in> mem_done_months (process_months args2 net2 ms ?s0)" using Q a 1 by simp
    from process_month_skip[OF this] Q a 1 show ?thesis by simp
  qed
  from 1 2 3 4 5 show ?thesis by blast
qed


text \<open>The three sets of a run are finite at every point of the loop over the months.\<close>

lemma run_sets_finite:
  "finite (mem_done_months (process_months args net ms (initial_scraper args files stored)))"
  "finite (mem_done_images (process_months args net ms (initial_scraper args files stored)))"
  "finite (mem_failed_images (process_months args net ms (initial_scraper args files stored)))"
proof -
  let ?s0 = "initial_scraper args files stored"
  have i: "finite (mem_done_months ?s0)" "finite (mem_done_images ?s0)" "finite (mem_failed_images ?s0)"
    by (simp_all add: initial_scraper_def Let_def)
  note P = process_months_fields[of args net ms ?s0]
  show "finite (mem_done_months (process_months args net ms ?s0))" using P i by simp
  show "finite (mem_done_images (process_months args net ms ?s0))" using P i by blast
  show "finite (mem_failed_images (process_months args net ms ?s0))" using P i by blast
qed

text \<open>
  C10. At any point of a run, when the scraper processes a month that is not yet in
  \<open>done_months\<close> and whose listing is not empty, the month is in \<open>done_months\<close>
  afterwards and the state file holds the three sets as they then are, whatever happened
  to the items: the keys that failed are in \<open>failed_images\<close> and none of the earlier ones
  has left it. A later run that loads this state file (no \<^verbatim>\<open>--reset\<close>) starts with the
  month in \<open>done_months\<close> and with the same \<open>failed_images\<close>; wherever the month comes in
  that run, its step only prints that it is complete: no request, no download, no change
  of the state. The scraper never removes a key from \<open>failed_images\<close>.
\<close>

theorem scraper_marks_month_done:
  assumes N: "ym \<notin> mem_done_months s" and L: "get_image_ids net ym \<noteq> []"
    and S: "s = process_months args net ms0 (initial_scraper args files stored)"
  shows "ym \<in> mem_done_months (process_month args net s ym)
       \<and> (\<exists>st. state_json (process_month args net s ym) = Some st
             \<and> set (done_months st) = mem_done_months (process_month args net s ym)
             \<and> set (done_images st) = mem_done_images (process_month args net s ym)
             \<and> set (failed_images st) = mem_failed_images (process_month args net s ym)
             \<and> ym \<in> set (done_months st))
       \<and> mem_failed_images s \<subseteq> mem_failed_images (process_month args net s ym)
       \<and> (\<forall>key. FAILED key \<in> set (printed (process_month args net s ym)) \<longrightarrow>
             FAILED key \<in> set (printed s) \<or> key \<in> mem_failed_images (process_month args net s ym))
       \<and> (\<forall>args2 net2 files2 ms.
             \<not> reset args2 \<longrightarrow>
             ym \<in> mem_done_months (initial_scraper args2 files2 (state_json (process_month args net s ym)))
             \<and> mem_failed_images (initial_scraper args2 files2 (state_json (process_month args net s ym)))
                 = mem_failed_images (process_month args net s ym)
             \<and> process_month args2 net2
                   (process_months args2 net2 ms
                      (initial_scraper args2 files2 (state_json (process_month args net s ym)))) ym
                 = (process_months args2 net2 ms
                      (initial_scraper args2 files2 (state_json (process_month args net s ym))))
                   \<lparr>printed := printed (process_months args2 net2 ms
                      (initial_scraper args2 files2 (state_json (process_month args net s ym))))
                      @ [AlreadyComplete ym]\<rparr>
             \<and> mem_failed_images (process_month args net s ym)
                 \<subseteq> mem_failed_images (process_months args2 net2 ms
                      (initial_scraper args2 files2 (state_json (process_month args net s ym)))))"
proof -
  have F: "finite (mem_done_months s)" "finite (mem_done_images s)" "finite (mem_failed_images s)"
    unfolding S by (rule run_sets_finite)+
  show ?thesis by (rule month_step_done[OF N L F])
qed

theorem scraper_marks_month_done_witness:
  "''202501'' \<notin> mem_done_months ex_start \<and> get_image_ids ex_web ''202501'' \<noteq> []
   \<and> ex_start = process_months ex_detail_first ex_web []
                    (initial_scraper ex_detail_first ex_files None)
   \<and> \<not> reset ex_detail_first
   \<and> process_month ex_detail_first ex_web ex_start ''202501'' = ex_final
   \<and> ''202501'' \<in> mem_done_months ex_final
   \<and> FAILED ''202501/A'' \<in> set (printed ex_final)
   \<and> ''202501/A'' \<in> mem_failed_images ex_final
   \<and> (\<exists>st. state_json ex_final = Some st \<and> ''202501'' \<in> set (done_months st)
         \<and> set (failed_images st) = mem_failed_images ex_final)
   \<and> (\<exists>s2. scrape_main ex_detail_first ex_web Map.empty (state_json ex_final) = Inr (s2, 0)
         \<and> requests s2 = [] \<and> printed s2 = [AlreadyComplete ''202501'']
         \<and> out_files s2 = Map.empty
         \<and> mem_failed_images s2 = mem_failed_images ex_final)"
proof -
  have n: "''202501'' \<notin> mem_done_months ex_start" by (simp add: ex_start_def)
  have l: "get_image_ids ex_web ''202501'' \<noteq> []" by (simp add: ex_web_listing)
  have nr: "\<not> reset ex_detail_first" by (simp add: ex_detail_first_def)
  have r: "ex_start = process_months ex_detail_first ex_web [] (initial_scraper ex_detail_first ex_files None)"
    by (simp add: ex_initial)
  note T = scraper_marks_month_done[OF n l r, unfolded ex_month]
  let ?s0 = "initial_scraper ex_detail_first Map.empty (state_json ex_final)"
  from T have d: "''202501'' \<in> mem_done_months ex_final"
    and j: "\<exists>st. state_json ex_final = Some st \<and> ''202501'' \<in> set (done_months st)
         \<and> set (failed_images st) = mem_failed_images ex_final"
    by blast+
  from T nr have later: "mem_failed_images ?s0 = mem_failed_images ex_final"
    "process_month ex_detail_first ex_web (process_months ex_detail_first ex_web [] ?s0) ''202501''
       = (process_months ex_detail_first ex_web [] ?s0)
           \<lparr>printed := printed (process_months ex_detail_first ex_web [] ?s0) @ [AlreadyComplete ''202501'']\<rparr>"
    by blast+
  have p: "FAILED ''202501/A'' \<in> set (printed ex_final)" "''202501/A'' \<in> mem_failed_images ex_final"
    by (simp_all add: ex_final_def)
  have z: "requests ?s0 = []" "printed ?s0 = []" "out_files ?s0 = Map.empty" "n_fail ?s0 = 0"
    by (simp_all add: initial_scraper_def Let_def)
  have g: "generate_months (opt_start ex_detail_first) (opt_end ex_detail_first) = Inr [''202501'']"
    using gm_202501 by (simp add: ex_detail_first_def)
  have run: "scrape_main ex_detail_first ex_web Map.empty (state_json ex_final)
      = Inr (?s0\<lparr>printed := printed ?s0 @ [AlreadyComplete ''202501'']\<rparr>, 0)"
    unfolding scrape_main_def g using later(2) nr z(4)
    by (simp add: ex_detail_first_def)
  have "\<exists>s2. scrape_main ex_detail_first ex_web Map.empty (state_json ex_final) = Inr (s2, 0)
         \<and> requests s2 = [] \<and> printed s2 = [AlreadyComplete ''202501'']
         \<and> out_files s2 = Map.empty
         \<and> mem_failed_images s2 = mem_failed_images ex_final"
    unfolding run using z later(1) by simp
  with n l r nr ex_month d p j show ?thesis by blast
qed

end
